theory Spec2Isabelle
  imports Main
begin

section \<open>Python values and the sample annotator's concretizer\<close>

text \<open>
  Module options are arbitrary values loaded from automation content. A mapping is a
  \<open>PyDict\<close>, an association list in insertion order with string keys; every other
  constructor is a value whose type is not \<open>dict\<close>.
\<close>

datatype pyval =
    PyNone
  | PyBool bool
  | PyInt int
  | PyStr string
  | PyList "pyval list"
  | PyDict "(string \<times> pyval) list"

text \<open>
  \<open>SampleCustomAnnotator.homebrew\<close> (sample_custom_annotator.py, lines 53-61). The result
  \<open>data\<close> is a fresh dict, given here as the association list of its entries in insertion
  order.
\<close>

fun homebrew :: "pyval \<Rightarrow> (string \<times> pyval) list" where
  "homebrew (PyDict options) =
     (let data = [];
          data = (case map_of options ''name'' of
                    Some v \<Rightarrow> data @ [(''pkg'', v)]
                  | None \<Rightarrow> data);
          data = (if map_of options ''state'' \<noteq> None \<and> map_of options ''state'' = Some (PyStr ''absent'')
                  then data @ [(''delete'', PyBool True)]
                  else data)
      in data)"
| "homebrew _ = []"

section \<open>Text helpers of the detector\<close>

text \<open>
  Strings are lists of characters. The Python string methods used by risk_detector.py
  are written out: \<open>str.split\<close> with a non-empty separator, \<open>str.replace\<close>,
  \<open>str.splitlines\<close>, \<open>str.join\<close> and the decimal rendering of a non-negative integer
  by \<open>str.format\<close>.
\<close>

abbreviation NL :: string where
  "NL \<equiv> [CHR 0x0A]"

fun startswith :: "string \<Rightarrow> string \<Rightarrow> bool" where
  "startswith s [] = True"
| "startswith [] (p # ps) = False"
| "startswith (c # cs) (p # ps) = (c = p \<and> startswith cs ps)"

text \<open>
  \<open>s.split(sep)\<close>: the pieces between the leftmost non-overlapping occurrences of
  \<open>sep\<close>. The counter skips the remaining characters of an occurrence just found. Both
  separators of the source are non-empty (Python raises ValueError on an empty one).
\<close>

fun split_aux :: "string \<Rightarrow> nat \<Rightarrow> string \<Rightarrow> string \<Rightarrow> string list" where
  "split_aux sep k cur [] = [cur]"
| "split_aux sep (Suc k) cur (c # cs) = split_aux sep k cur cs"
| "split_aux sep 0 cur (c # cs) =
     (if startswith (c # cs) sep then cur # split_aux sep (length sep - 1) [] cs
      else split_aux sep 0 (cur @ [c]) cs)"

definition split_str :: "string \<Rightarrow> string \<Rightarrow> string list" where
  "split_str sep s = split_aux sep 0 [] s"

text \<open>
  \<open>s.replace(old, new)\<close>; with an empty \<open>old\<close> Python inserts \<open>new\<close> before every
  character and at the end.
\<close>

fun replace_aux :: "string \<Rightarrow> string \<Rightarrow> nat \<Rightarrow> string \<Rightarrow> string" where
  "replace_aux old new k [] = []"
| "replace_aux old new (Suc k) (c # cs) = replace_aux old new k cs"
| "replace_aux old new 0 (c # cs) =
     (if startswith (c # cs) old then new @ replace_aux old new (length old - 1) cs
      else c # replace_aux old new 0 cs)"

definition replace_str :: "string \<Rightarrow> string \<Rightarrow> string \<Rightarrow> string" where
  "replace_str old new s =
     (if old = [] then new @ concat (map (\<lambda>c. c # new) s) else replace_aux old new 0 s)"

text \<open>
  \<open>s.splitlines()\<close>: the line boundaries among the characters below 256 are LF, CR,
  CR LF, VT, FF, FS, GS, RS and NEL; the boundary is not part of the line, and a final
  boundary opens no further line.
\<close>

definition is_linebreak :: "char \<Rightarrow> bool" where
  "is_linebreak c \<longleftrightarrow> c \<in> set [CHR 0x0A, CHR 0x0D, CHR 0x0B, CHR 0x0C, CHR 0x1C, CHR 0x1D, CHR 0x1E, CHR 0x85]"

fun splitlines_aux :: "string \<Rightarrow> string \<Rightarrow> string list" where
  "splitlines_aux cur (c # d # cs) =
     (if c = CHR 0x0D \<and> d = CHR 0x0A then cur # splitlines_aux [] cs
      else if is_linebreak c then cur # splitlines_aux [] (d # cs)
      else splitlines_aux (cur @ [c]) (d # cs))"
| "splitlines_aux cur [c] = (if is_linebreak c then [cur] else [cur @ [c]])"
| "splitlines_aux cur [] = (if cur = [] then [] else [cur])"

definition splitlines :: "string \<Rightarrow> string list" where
  "splitlines s = splitlines_aux [] s"

fun join :: "string \<Rightarrow> string list \<Rightarrow> string" where
  "join sep [] = []"
| "join sep [x] = x"
| "join sep (x # y # ys) = x @ sep @ join sep (y # ys)"

definition digit_chr :: "nat \<Rightarrow> char" where
  "digit_chr d = ''0123456789'' ! d"

fun str_of_nat :: "nat \<Rightarrow> string" where
  "str_of_nat n = (if n < 10 then [digit_chr n] else str_of_nat (n div 10) @ [digit_chr (n mod 10)])"

declare str_of_nat.simps [simp del]

text \<open>\<open>"-" * 90 + "\n"\<close>, the separator line of the narrative report.\<close>

definition separator_line :: string where
  "separator_line = replicate 90 (CHR ''-'') @ NL"

text \<open>\<open>indent\<close> (risk_detector.py, lines 30-33).\<close>

definition indent :: "string \<Rightarrow> nat \<Rightarrow> string" where
  "indent multi_line_txt level =
     (let lines = splitlines multi_line_txt;
          lines = map (\<lambda>line. replicate level (CHR '' '') @ line)
                      (filter (\<lambda>line. replace_str '' '' [] line \<noteq> []) lines)
      in join NL lines)"

text \<open>\<open>make_subject_str\<close> (lines 51-59).\<close>

definition make_subject_str :: "nat \<Rightarrow> nat \<Rightarrow> string" where
  "make_subject_str playbook_num role_num =
     (if playbook_num > 0 \<and> role_num > 0 then ''playbooks/roles''
      else if playbook_num > 0 then ''playbooks''
      else if role_num > 0 then ''roles''
      else [])"

section \<open>Data model\<close>

record TaskSpec =
  resolved_name :: string
  module_options :: pyval
  defined_in :: string

record TaskCall =
  spec :: TaskSpec

record TaskCallsInTree =
  root_key :: string
  taskcalls :: "TaskCall list"

text \<open>
  An element of the input list is a \<open>TaskCallsInTree\<close> or some other object; \<open>detect\<close>
  tests this with \<open>isinstance\<close> (line 85).
\<close>

datatype forest_item = Tree TaskCallsInTree | NotATree

text \<open>
  A rule object as \<open>detect\<close> uses it. \<open>check\<close> receives the task calls and the keyword
  arguments \<open>extra_check_args\<close> and returns \<open>(matched, _, message)\<close>; the rule contract
  makes it a pure function that does not raise. The type variable is the type of the
  middle component, which \<open>detect\<close> discards.
\<close>

record 'a Rule =
  name :: string
  enabled :: bool
  separate_report :: bool
  all_ok_message :: string
  check :: "TaskCall list \<Rightarrow> (string \<times> string) list \<Rightarrow> bool \<times> 'a \<times> string"

text \<open>A table row \<open>[tree_root_label, tree_root_name, message]\<close> (line 124).\<close>

type_synonym row = "string \<times> string option \<times> string"

text \<open>
  What \<open>detect\<close> takes from outside risk_detector.py: the rule objects returned by
  \<open>load_rules\<close>, \<open>detect_type\<close> of keyutil, \<open>subject_placeholder\<close> of rules.base, the
  \<open>tabulate\<close> library function with \<open>tablefmt="plain"\<close>, Python's \<open>repr\<close> of a string
  (used when a list of names is formatted) and Python's \<open>str.upper\<close> (which maps
  letters of every script, also to characters and to strings that an 8-bit character
  cannot hold). They are parameters of the model.
\<close>

record 'a env =
  rules :: "'a Rule list"
  detect_type :: "string \<Rightarrow> string"
  subject_placeholder :: string
  tabulate :: "row list \<Rightarrow> string"
  py_repr :: "string \<Rightarrow> string"
  py_upper :: "string \<Rightarrow> string"

text \<open>
  Modelled from the spec: \<open>key_delimiter\<close> of keyutil is not among the sources; a
  \<open>root_key\<close> is a string of the form \<open><type>:<path-or-name>\<close>.
\<close>

definition key_delimiter :: string where
  "key_delimiter = '':''"

text \<open>
  Modelled from the spec: \<open>detect_type\<close> of keyutil is not among the sources; the type
  of a \<open>root_key\<close> of the form \<open><type>:<path-or-name>\<close> is the part before the first
  delimiter. It instantiates the parameter \<open>detect_type\<close> in concrete runs only.
\<close>

definition detect_type_of_key :: "string \<Rightarrow> string" where
  "detect_type_of_key key = (case split_str key_delimiter key of [] \<Rightarrow> [] | t # _ \<Rightarrow> t)"

text \<open>\<open>os.path.basename\<close>: what follows the last slash.\<close>

definition basename :: "string \<Rightarrow> string" where
  "basename p = last (split_str ''/'' p)"

text \<open>
  \<open>key2name\<close> (lines 36-41); it returns \<open>None\<close> when the type is neither \<open>playbook\<close> nor
  \<open>role\<close>. A name is therefore a \<open>string option\<close> throughout. \<open>split\<close> never returns an
  empty list, so the index \<open>[-1]\<close> is its last element.
\<close>

definition key2name :: "'a env \<Rightarrow> string \<Rightarrow> string option" where
  "key2name env key =
     (let type' = detect_type env key in
      if type' = ''playbook'' then Some (basename (last (split_str key_delimiter key)))
      else if type' = ''role'' then Some (last (split_str key_delimiter key))
      else None)"

record count =
  total :: nat
  risk :: nat

text \<open>
  The lists of playbook names are mutable objects that are shared: the dict
  \<open>role_to_playbook_mappings\<close> and the records of \<open>result_dict\<close> refer to the same list
  object (lines 100-103 and 141-150). The model keeps the list objects in a store
  \<open>heap\<close>, addressed by position, and lets the dict and the records hold addresses.
\<close>

type_synonym addr = nat

record result_entry =
  res_type :: string
  res_name :: "string option"
  res_message :: string
  res_playbooks_use_this_role :: "addr option"

record 'a state =
  report_num :: nat
  playbook_count :: count
  role_count :: count
  separate_report_d :: "(string \<times> 'a Rule \<times> row list) list"
  role_to_playbook_mappings :: "string \<rightharpoonup> addr"
  heap :: "string option list list"
  risk_found_playbooks :: "string option set"
  tmp_result_txt :: string
  result_dict :: "(string \<times> result_entry list) list"

datatype error = IndexError

text \<open>The structured report as returned, with every list reference followed.\<close>

record result_record =
  rec_type :: string
  rec_name :: "string option"
  rec_message :: string
  playbooks_use_this_role :: "string option list option"

record summary_entry =
  summary_total :: nat
  risk_found :: nat

record detail =
  detail_rule :: string
  detail_results :: "result_record list"

record data_report =
  summary :: "(string \<times> summary_entry) list"
  details :: "detail list"

section \<open>The detector\<close>

text \<open>
  \<open>role_to_playbook_mappings.get(key, [])\<close>: the address of the list stored under the
  key, or of a new empty list. The keys of the dict are strings, so the name \<open>None\<close> is
  never found.
\<close>

definition mappings_get ::
  "(string \<rightharpoonup> addr) \<Rightarrow> string option list list \<Rightarrow> string option \<Rightarrow> addr \<times> string option list list" where
  "mappings_get m h key =
     (case (case key of None \<Rightarrow> None | Some k \<Rightarrow> m k) of
        Some a \<Rightarrow> (a, h)
      | None \<Rightarrow> (length h, h @ [[]]))"

text \<open>
  Lines 100-103: the playbook name is appended to the list of the role unless it is
  there already, and the list is stored under the role name.
\<close>

definition register_one ::
  "string option \<Rightarrow> string \<Rightarrow> (string \<rightharpoonup> addr) \<times> string option list list
     \<Rightarrow> (string \<rightharpoonup> addr) \<times> string option list list" where
  "register_one tree_root_name role_name mh =
     (case mh of (m, h) \<Rightarrow>
        (case mappings_get m h (Some role_name) of
           (a, h1) \<Rightarrow>
             (m(role_name \<mapsto> a),
              if tree_root_name \<in> set (h1 ! a) then h1
              else h1[a := (h1 ! a) @ [tree_root_name]])))"

text \<open>
  The loop over the task calls of a playbook tree (lines 96-103). \<open>parts[1]\<close> raises
  IndexError when \<open>defined_in\<close> is exactly \<open>roles\<close>.
\<close>

fun register_roles ::
  "string option \<Rightarrow> TaskCall list \<Rightarrow> (string \<rightharpoonup> addr) \<times> string option list list
     \<Rightarrow> error + ((string \<rightharpoonup> addr) \<times> string option list list)" where
  "register_roles tree_root_name [] mh = Inr mh"
| "register_roles tree_root_name (taskcall # rest) mh =
     (case split_str ''/'' (defined_in (spec taskcall)) of
        [] \<Rightarrow> Inl IndexError
      | p0 # ps \<Rightarrow>
          if p0 = ''roles'' then
            (case ps of
               [] \<Rightarrow> Inl IndexError
             | role_name # _ \<Rightarrow>
                 register_roles tree_root_name rest (register_one tree_root_name role_name mh))
          else register_roles tree_root_name rest mh)"

text \<open>Insertion-ordered dicts of lists (lines 116-120 and 124; lines 126-128 and 143-145).\<close>

definition sep_ensure ::
  "string \<Rightarrow> 'a Rule \<Rightarrow> (string \<times> 'a Rule \<times> row list) list \<Rightarrow> (string \<times> 'a Rule \<times> row list) list" where
  "sep_ensure rule_name rule d =
     (if rule_name \<notin> fst ` set d then d @ [(rule_name, rule, [])] else d)"

definition sep_append ::
  "string \<Rightarrow> row \<Rightarrow> (string \<times> 'a Rule \<times> row list) list \<Rightarrow> (string \<times> 'a Rule \<times> row list) list" where
  "sep_append rule_name r d =
     map (\<lambda>(k, rule, matched). if k = rule_name then (k, rule, matched @ [r]) else (k, rule, matched)) d"

definition dict_append ::
  "string \<Rightarrow> result_entry \<Rightarrow> (string \<times> result_entry list) list \<Rightarrow> (string \<times> result_entry list) list" where
  "dict_append rule_name e d =
     (if rule_name \<notin> fst ` set d then d @ [(rule_name, [e])]
      else map (\<lambda>(k, es). if k = rule_name then (k, es @ [e]) else (k, es)) d)"

text \<open>
  The body of the loop over the rules (lines 111-152), on the state together with the
  locals \<open>do_report\<close> and \<open>tmp_result_txt_alt\<close>.
\<close>

definition rule_body ::
  "TaskCall list \<Rightarrow> (string \<times> string) list \<Rightarrow> string \<Rightarrow> string option \<Rightarrow> bool \<Rightarrow> 'a Rule
     \<Rightarrow> 'a state \<times> bool \<times> string \<Rightarrow> 'a state \<times> bool \<times> string" where
  "rule_body tcs extra_check_args tree_root_type tree_root_name is_playbook rule acc =
     (case acc of (s, do_report, tmp_result_txt_alt) \<Rightarrow>
      if \<not> enabled rule then acc
      else
        (case check rule tcs extra_check_args of (matched, aux, message) \<Rightarrow>
         let rule_name = name rule;
             s1 = (if separate_report rule
                   then s\<lparr>separate_report_d := sep_ensure rule_name rule (separate_report_d s)\<rparr>
                   else s)
         in if matched then
              (if separate_report rule then
                 (s1\<lparr>separate_report_d :=
                        sep_append rule_name (tree_root_type, tree_root_name, message) (separate_report_d s1),
                     result_dict :=
                        dict_append rule_name
                          \<lparr>res_type = tree_root_type, res_name = tree_root_name, res_message = message,
                           res_playbooks_use_this_role = None\<rparr>
                          (result_dict s1)\<rparr>,
                  do_report, tmp_result_txt_alt)
               else if \<not> is_playbook then
                 (case mappings_get (role_to_playbook_mappings s1) (heap s1) tree_root_name of
                    (a, h) \<Rightarrow>
                      (s1\<lparr>heap := h,
                          result_dict :=
                            dict_append rule_name
                              \<lparr>res_type = tree_root_type, res_name = tree_root_name, res_message = message,
                               res_playbooks_use_this_role = Some a\<rparr>
                              (result_dict s1)\<rparr>,
                       True,
                       tmp_result_txt_alt @ rule_name @ NL @ indent message 0 @ NL))
               else (s1, do_report, tmp_result_txt_alt))
            else (s1, do_report, tmp_result_txt_alt)))"

fun rules_loop ::
  "'a Rule list \<Rightarrow> TaskCall list \<Rightarrow> (string \<times> string) list \<Rightarrow> string \<Rightarrow> string option \<Rightarrow> bool
     \<Rightarrow> 'a state \<times> bool \<times> string \<Rightarrow> 'a state \<times> bool \<times> string" where
  "rules_loop [] tcs extra ty nm is_playbook acc = acc"
| "rules_loop (rule # rest) tcs extra ty nm is_playbook acc =
     rules_loop rest tcs extra ty nm is_playbook (rule_body tcs extra ty nm is_playbook rule acc)"

text \<open>Formatting of names and of a list of names by \<open>str.format\<close>.\<close>

definition str_name :: "string option \<Rightarrow> string" where
  "str_name n = (case n of None \<Rightarrow> ''None'' | Some s \<Rightarrow> s)"

definition repr_name :: "'a env \<Rightarrow> string option \<Rightarrow> string" where
  "repr_name env n = (case n of None \<Rightarrow> ''None'' | Some s \<Rightarrow> py_repr env s)"

definition str_list :: "'a env \<Rightarrow> string option list \<Rightarrow> string" where
  "str_list env l = ''['' @ join '', '' (map (repr_name env) l) @ '']''"

text \<open>The emission of a numbered section (lines 153-165).\<close>

definition emit_section ::
  "'a env \<Rightarrow> string \<Rightarrow> string option \<Rightarrow> bool \<Rightarrow> 'a state \<times> bool \<times> string \<Rightarrow> 'a state" where
  "emit_section env tree_root_type tree_root_name is_playbook acc =
     (case acc of (s, do_report, tmp_result_txt_alt) \<Rightarrow>
      if do_report \<and> tmp_result_txt_alt \<noteq> [] then
        (case mappings_get (role_to_playbook_mappings s) (heap s) tree_root_name of
           (a, h) \<Rightarrow>
             let used_in_playbooks = h ! a in
             s\<lparr>tmp_result_txt :=
                  tmp_result_txt s
                  @ ''#'' @ str_of_nat (report_num s) @ '' '' @ py_upper env tree_root_type @ '' - ''
                  @ str_name tree_root_name @ NL
                  @ (if length used_in_playbooks > 0
                     then ''(used_in: '' @ str_list env used_in_playbooks @ '')'' @ NL else [])
                  @ tmp_result_txt_alt
                  @ separator_line,
               risk_found_playbooks := risk_found_playbooks s \<union> set used_in_playbooks,
               report_num := report_num s + 1,
               playbook_count :=
                  (if is_playbook then (playbook_count s)\<lparr>risk := risk (playbook_count s) + 1\<rparr>
                   else playbook_count s),
               role_count :=
                  (if is_playbook then role_count s
                   else (role_count s)\<lparr>risk := risk (role_count s) + 1\<rparr>)\<rparr>)
      else s)"

text \<open>One iteration of the loop over the trees (lines 84-166).\<close>

definition process_item ::
  "'a env \<Rightarrow> (string \<times> string) list \<Rightarrow> 'a state \<Rightarrow> forest_item \<Rightarrow> error + 'a state" where
  "process_item env extra_check_args s item =
     (case item of
        NotATree \<Rightarrow> Inr s
      | Tree taskcalls_in_tree \<Rightarrow>
          let tree_root_key = root_key taskcalls_in_tree;
              tree_root_type = detect_type env tree_root_key;
              tree_root_name = key2name env tree_root_key;
              is_playbook = (tree_root_type = ''playbook'')
          in
          (case (if is_playbook then
                   (case register_roles tree_root_name (taskcalls taskcalls_in_tree)
                           (role_to_playbook_mappings s, heap s) of
                      Inl e \<Rightarrow> Inl e
                    | Inr (m, h) \<Rightarrow>
                        Inr (s\<lparr>playbook_count := (playbook_count s)\<lparr>total := total (playbook_count s) + 1\<rparr>,
                               role_to_playbook_mappings := m, heap := h\<rparr>))
                 else Inr (s\<lparr>role_count := (role_count s)\<lparr>total := total (role_count s) + 1\<rparr>\<rparr>)) of
             Inl e \<Rightarrow> Inl e
           | Inr s1 \<Rightarrow>
               Inr (emit_section env tree_root_type tree_root_name is_playbook
                      (rules_loop (rules env) (taskcalls taskcalls_in_tree) extra_check_args
                         tree_root_type tree_root_name is_playbook (s1, False, [])))))"

fun detect_loop ::
  "'a env \<Rightarrow> (string \<times> string) list \<Rightarrow> 'a state \<Rightarrow> forest_item list \<Rightarrow> error + 'a state" where
  "detect_loop env extra s [] = Inr s"
| "detect_loop env extra s (item # rest) =
     (case process_item env extra s item of
        Inl e \<Rightarrow> Inl e
      | Inr s' \<Rightarrow> detect_loop env extra s' rest)"

definition init_state :: "'a state" where
  "init_state =
     \<lparr>report_num = 1,
      playbook_count = \<lparr>total = 0, risk = 0\<rparr>,
      role_count = \<lparr>total = 0, risk = 0\<rparr>,
      separate_report_d = [],
      role_to_playbook_mappings = Map.empty,
      heap = [],
      risk_found_playbooks = {},
      tmp_result_txt = [],
      result_dict = []\<rparr>"

text \<open>The section of one tabulated rule (the body of the loop of lines 193-207).\<close>

definition render_separate :: "'a env \<Rightarrow> nat \<Rightarrow> nat \<Rightarrow> string \<times> 'a Rule \<times> row list \<Rightarrow> string" where
  "render_separate env playbook_total role_total entry =
     (case entry of (label, rule, table_data) \<Rightarrow>
      let placeholder = subject_placeholder env;
          subject = make_subject_str playbook_total role_total;
          table_txt = ''  All '' @ placeholder @ '' are OK'';
          table_txt = (if all_ok_message rule \<noteq> [] then ''  '' @ all_ok_message rule else table_txt);
          table_txt = (if length table_data > 0 then tabulate env table_data
                       else replace_str placeholder subject table_txt)
      in label @ NL @ indent table_txt 0 @ NL @ separator_line)"

definition deref :: "string option list list \<Rightarrow> result_entry \<Rightarrow> result_record" where
  "deref h e =
     \<lparr>rec_type = res_type e, rec_name = res_name e, rec_message = res_message e,
      playbooks_use_this_role = map_option (\<lambda>a. h ! a) (res_playbooks_use_this_role e)\<rparr>"

text \<open>The structured report (lines 167-169, 176-179 and 185-188).\<close>

definition make_data_report :: "'a state \<Rightarrow> data_report" where
  "make_data_report s =
     \<lparr>summary =
        (if total (playbook_count s) > 0
         then [(''playbooks'', \<lparr>summary_total = total (playbook_count s), risk_found = risk (playbook_count s)\<rparr>)]
         else [])
        @ (if total (role_count s) > 0
           then [(''roles'', \<lparr>summary_total = total (role_count s), risk_found = risk (role_count s)\<rparr>)]
           else []),
      details =
        map (\<lambda>(rule_name, results). \<lparr>detail_rule = rule_name, detail_results = map (deref (heap s)) results\<rparr>)
            (result_dict s)\<rparr>"

text \<open>The narrative report (lines 67-70, 171-191 and 193-207).\<close>

definition make_result_txt :: "'a env \<Rightarrow> 'a state \<Rightarrow> string" where
  "make_result_txt env s =
     separator_line @ ''Ansible Risk Insight Report'' @ NL @ separator_line
     @ (if total (playbook_count s) > 0
        then ''Playbooks'' @ NL
             @ ''  Total: '' @ str_of_nat (total (playbook_count s)) @ NL
             @ ''  Risk Found: '' @ str_of_nat (card (risk_found_playbooks s)) @ NL
        else [])
     @ (if total (role_count s) > 0
        then ''Roles'' @ NL
             @ ''  Total: '' @ str_of_nat (total (role_count s)) @ NL
             @ ''  Risk Found: '' @ str_of_nat (risk (role_count s)) @ NL
        else [])
     @ separator_line
     @ tmp_result_txt s
     @ concat (map (render_separate env (total (playbook_count s)) (total (role_count s)))
                   (separate_report_d s))"

text \<open>The keyword arguments passed to every \<open>check\<close> (lines 64-66).\<close>

definition extra_args :: "string \<Rightarrow> (string \<times> string) list" where
  "extra_args collection_name =
     (if collection_name \<noteq> [] then [(''collection_name'', collection_name)] else [])"

text \<open>\<open>detect\<close> (lines 62-208).\<close>

definition detect ::
  "'a env \<Rightarrow> forest_item list \<Rightarrow> string \<Rightarrow> error + (string \<times> data_report)" where
  "detect env taskcalls_in_trees collection_name =
     (let extra_check_args = extra_args collection_name
      in case detect_loop env extra_check_args init_state taskcalls_in_trees of
           Inl e \<Rightarrow> Inl e
         | Inr s \<Rightarrow> Inr (make_result_txt env s, make_data_report s))"

section \<open>Notions used in the statements\<close>

subsection \<open>Rules and their matches on one tree\<close>

text \<open>
  The components of the result of \<open>check\<close>, and the three ways a rule can take part in
  the processing of a tree: an enabled inline rule that matched, an enabled tabulated
  rule that matched, and a match that \<open>detect\<close> records in \<open>result_dict\<close> (every
  tabulated match, and an inline match when the tree is not a playbook).
\<close>

definition matched :: "'a Rule \<Rightarrow> TaskCall list \<Rightarrow> (string \<times> string) list \<Rightarrow> bool" where
  "matched r tcs extra = fst (check r tcs extra)"

definition message_of :: "'a Rule \<Rightarrow> TaskCall list \<Rightarrow> (string \<times> string) list \<Rightarrow> string" where
  "message_of r tcs extra = snd (snd (check r tcs extra))"

definition inline_match :: "TaskCall list \<Rightarrow> (string \<times> string) list \<Rightarrow> 'a Rule \<Rightarrow> bool" where
  "inline_match tcs extra r \<longleftrightarrow> enabled r \<and> \<not> separate_report r \<and> matched r tcs extra"

definition tabulated_match :: "TaskCall list \<Rightarrow> (string \<times> string) list \<Rightarrow> 'a Rule \<Rightarrow> bool" where
  "tabulated_match tcs extra r \<longleftrightarrow> enabled r \<and> separate_report r \<and> matched r tcs extra"

definition recorded_match :: "TaskCall list \<Rightarrow> (string \<times> string) list \<Rightarrow> bool \<Rightarrow> 'a Rule \<Rightarrow> bool" where
  "recorded_match tcs extra pb r \<longleftrightarrow> tabulated_match tcs extra r \<or> (inline_match tcs extra r \<and> \<not> pb)"

text \<open>
  What one matching inline rule adds to \<open>tmp_result_txt_alt\<close> (lines 138-139), the
  matching inline rules of a tree in rule order, and the text they add together.
\<close>

definition inline_text :: "TaskCall list \<Rightarrow> (string \<times> string) list \<Rightarrow> 'a Rule \<Rightarrow> string" where
  "inline_text tcs extra r = name r @ NL @ indent (message_of r tcs extra) 0 @ NL"

definition inline_matches :: "'a env \<Rightarrow> (string \<times> string) list \<Rightarrow> TaskCallsInTree \<Rightarrow> 'a Rule list" where
  "inline_matches env ex t = filter (inline_match (taskcalls t) ex) (rules env)"

definition inline_body :: "'a env \<Rightarrow> (string \<times> string) list \<Rightarrow> TaskCallsInTree \<Rightarrow> string" where
  "inline_body env ex t = concat (map (inline_text (taskcalls t) ex) (inline_matches env ex t))"

text \<open>
  The row a matching tabulated rule appends (line 124), and the rows stored under a
  rule name in \<open>separate_report\<close> (none when the name is not a key).
\<close>

definition tab_row :: "TaskCall list \<Rightarrow> (string \<times> string) list \<Rightarrow> string \<Rightarrow> string option \<Rightarrow> 'a Rule \<Rightarrow> row" where
  "tab_row tcs extra ty nm r = (ty, nm, message_of r tcs extra)"

definition rows_of :: "(string \<times> 'a Rule \<times> row list) list \<Rightarrow> string \<Rightarrow> row list" where
  "rows_of d n = (case map_of d n of None \<Rightarrow> [] | Some (r, rows) \<Rightarrow> rows)"

text \<open>
  The result of the loop over the rules for one tree, started with \<open>do_report = False\<close>
  and an empty \<open>tmp_result_txt_alt\<close> (lines 107-152).
\<close>

definition loop_result :: "'a env \<Rightarrow> (string \<times> string) list \<Rightarrow> TaskCallsInTree \<Rightarrow> 'a state \<Rightarrow> 'a state \<times> bool \<times> string" where
  "loop_result env ex t s1 =
     rules_loop (rules env) (taskcalls t) ex (detect_type env (root_key t)) (key2name env (root_key t))
       (detect_type env (root_key t) = ''playbook'') (s1, False, [])"

text \<open>
  The environment without its tabulated rules, to state that they have no influence.
\<close>

definition inline_only :: "'a env \<Rightarrow> 'a env" where
  "inline_only env = env\<lparr>rules := filter (\<lambda>r. \<not> separate_report r) (rules env)\<rparr>"

subsection \<open>The dict of playbooks per role, read through the store\<close>

text \<open>
  \<open>mapping_view s r\<close> is the list that \<open>role_to_playbook_mappings[r]\<close> denotes in state
  \<open>s\<close>, or \<open>None\<close> when \<open>r\<close> is not a key; \<open>names_of\<close> reads an absent list as empty,
  as \<open>.get(r, [])\<close> does, and \<open>used_in_of\<close> is that list for the name of a tree (a name
  \<open>None\<close> is never a key).
\<close>

definition lookup_addr :: "(string \<rightharpoonup> addr) \<Rightarrow> string option \<Rightarrow> addr option" where
  "lookup_addr m key = (case key of None \<Rightarrow> None | Some k \<Rightarrow> m k)"

definition store_view :: "(string \<rightharpoonup> addr) \<Rightarrow> string option list list \<Rightarrow> string \<Rightarrow> string option list option" where
  "store_view m h r = map_option (\<lambda>a. h ! a) (m r)"

definition mapping_view :: "'a state \<Rightarrow> string \<Rightarrow> string option list option" where
  "mapping_view s = store_view (role_to_playbook_mappings s) (heap s)"

definition names_of :: "string option list option \<Rightarrow> string option list" where
  "names_of v = (case v of None \<Rightarrow> [] | Some l \<Rightarrow> l)"

definition used_in_of :: "'a state \<Rightarrow> string option \<Rightarrow> string option list" where
  "used_in_of s nm = (case nm of None \<Rightarrow> [] | Some n \<Rightarrow> names_of (mapping_view s n))"

text \<open>
  The store is well formed when every address of the dict is allocated, no two roles
  share a list object, and no list of the dict holds a name twice. This holds
  initially and is kept by every step.
\<close>

definition wf_store :: "(string \<rightharpoonup> addr) \<Rightarrow> string option list list \<Rightarrow> bool" where
  "wf_store m h \<longleftrightarrow>
     (\<forall>r a. m r = Some a \<longrightarrow> a < length h \<and> distinct (h ! a))
     \<and> (\<forall>r1 r2 a. m r1 = Some a \<and> m r2 = Some a \<longrightarrow> r1 = r2)"

definition wf_state :: "'a state \<Rightarrow> bool" where
  "wf_state s \<longleftrightarrow> wf_store (role_to_playbook_mappings s) (heap s)"

text \<open>
  Appending unless present (lines 101-102), and the role a task is defined in: the second
  segment of its \<open>defined_in\<close> path when the first segment is \<open>roles\<close>.
\<close>

definition add_once :: "'b \<Rightarrow> 'b list \<Rightarrow> 'b list" where
  "add_once x l = (if x \<in> set l then l else l @ [x])"

definition role_of_task :: "TaskCall \<Rightarrow> string option" where
  "role_of_task taskcall =
     (case split_str ''/'' (defined_in (spec taskcall)) of
        p0 # role_name # _ \<Rightarrow> if p0 = ''roles'' then Some role_name else None
      | _ \<Rightarrow> None)"

subsection \<open>Reports\<close>

text \<open>
  The text of one numbered section as lines 154-160 build it, from the incident number,
  the root type and name, the playbooks using the role and the messages.
\<close>

definition section_txt ::
  "'a env \<Rightarrow> nat \<Rightarrow> string \<Rightarrow> string option \<Rightarrow> string option list \<Rightarrow> string \<Rightarrow> string" where
  "section_txt env n ty nm used_in body =
     ''#'' @ str_of_nat n @ '' '' @ py_upper env ty @ '' - '' @ str_name nm @ NL
     @ (if used_in \<noteq> [] then ''(used_in: '' @ str_list env used_in @ '')'' @ NL else [])
     @ body @ separator_line"

text \<open>
  The narrative report in three parts: the head with the summary counts (lines 67-70 and
  171-189), the buffer of numbered sections (line 191), and the sections of the
  tabulated rules (lines 193-207).
\<close>

definition report_head :: "'a state \<Rightarrow> string" where
  "report_head s =
     separator_line @ ''Ansible Risk Insight Report'' @ NL @ separator_line
     @ (if total (playbook_count s) > 0
        then ''Playbooks'' @ NL
             @ ''  Total: '' @ str_of_nat (total (playbook_count s)) @ NL
             @ ''  Risk Found: '' @ str_of_nat (card (risk_found_playbooks s)) @ NL
        else [])
     @ (if total (role_count s) > 0
        then ''Roles'' @ NL
             @ ''  Total: '' @ str_of_nat (total (role_count s)) @ NL
             @ ''  Risk Found: '' @ str_of_nat (risk (role_count s)) @ NL
        else [])
     @ separator_line"

definition report_tables :: "'a env \<Rightarrow> 'a state \<Rightarrow> string" where
  "report_tables env s =
     concat (map (render_separate env (total (playbook_count s)) (total (role_count s)))
                 (separate_report_d s))"

text \<open>
  A forest element has an incident when it is a tree whose root type is not \<open>playbook\<close>
  on which at least one enabled inline rule matches. \<open>item_section\<close> is the text an
  element contributes to the numbered sections when \<open>n\<close> is the current incident number
  and \<open>s\<close> the state reached before the element: one numbered section for an element
  with an incident, nothing otherwise. \<open>incident_sections\<close> lists these contributions for
  a forest, one per element, in order; the incident number grows by one after every
  element with an incident, and the state is the one the detector has reached.
\<close>

definition has_incident :: "'a env \<Rightarrow> (string \<times> string) list \<Rightarrow> forest_item \<Rightarrow> bool" where
  "has_incident env extra item =
     (case item of
        Tree t \<Rightarrow> detect_type env (root_key t) \<noteq> ''playbook'' \<and> length (inline_matches env extra t) \<ge> 1
      | NotATree \<Rightarrow> False)"

definition item_section ::
  "'a env \<Rightarrow> (string \<times> string) list \<Rightarrow> nat \<Rightarrow> 'a state \<Rightarrow> forest_item \<Rightarrow> string" where
  "item_section env extra n s item =
     (case item of
        Tree t \<Rightarrow>
          if detect_type env (root_key t) \<noteq> ''playbook'' \<and> length (inline_matches env extra t) \<ge> 1
          then section_txt env n (detect_type env (root_key t)) (key2name env (root_key t))
                 (used_in_of s (key2name env (root_key t))) (inline_body env extra t)
          else []
      | NotATree \<Rightarrow> [])"

fun incident_sections ::
  "'a env \<Rightarrow> (string \<times> string) list \<Rightarrow> nat \<Rightarrow> 'a state \<Rightarrow> forest_item list \<Rightarrow> string list" where
  "incident_sections env extra n s [] = []"
| "incident_sections env extra n s (item # rest) =
     item_section env extra n s item
     # (case process_item env extra s item of
          Inl e \<Rightarrow> []
        | Inr s' \<Rightarrow>
            incident_sections env extra (if has_incident env extra item then n + 1 else n) s' rest)"

text \<open>
  The kinds of forest elements that \<open>detect\<close> counts: a tree whose root type is
  \<open>playbook\<close>, and a tree of any other root type.
\<close>

definition is_playbook_item :: "'a env \<Rightarrow> forest_item \<Rightarrow> bool" where
  "is_playbook_item env item =
     (case item of Tree t \<Rightarrow> detect_type env (root_key t) = ''playbook'' | NotATree \<Rightarrow> False)"

definition is_other_tree_item :: "'a env \<Rightarrow> forest_item \<Rightarrow> bool" where
  "is_other_tree_item env item =
     (case item of Tree t \<Rightarrow> detect_type env (root_key t) \<noteq> ''playbook'' | NotATree \<Rightarrow> False)"



text \<open>The \<open>details\<close> list of the structured report of a run that returned.\<close>

definition details_of :: "error + (string \<times> data_report) \<Rightarrow> detail list option" where
  "details_of r = (case r of Inl e \<Rightarrow> None | Inr x \<Rightarrow> Some (details (snd x)))"

subsection \<open>Two runs\<close>

text \<open>
  \<open>detect\<close> builds its rule objects anew at every call (line 63), so two runs work with
  two lists of rule objects. Two rule objects have the same outcome on a task list when
  they agree in name and flags and their checks return the same \<open>matched\<close> and the same
  \<open>message\<close> there; the middle component of the result may differ. Two states are the
  same up to the rule objects when they agree in every component, the tables agreeing
  in their keys, their rows and the \<open>all_ok_message\<close> of the stored rule.
\<close>

definition same_outcome ::
  "TaskCall list \<Rightarrow> (string \<times> string) list \<Rightarrow> 'a Rule \<Rightarrow> 'b Rule \<Rightarrow> bool" where
  "same_outcome tcs extra r1 r2 \<longleftrightarrow>
     name r1 = name r2 \<and> enabled r1 = enabled r2 \<and> separate_report r1 = separate_report r2
     \<and> all_ok_message r1 = all_ok_message r2
     \<and> matched r1 tcs extra = matched r2 tcs extra
     \<and> message_of r1 tcs extra = message_of r2 tcs extra"

definition same_parameters :: "'a env \<Rightarrow> 'b env \<Rightarrow> bool" where
  "same_parameters env1 env2 \<longleftrightarrow>
     detect_type env1 = detect_type env2 \<and> subject_placeholder env1 = subject_placeholder env2
     \<and> tabulate env1 = tabulate env2 \<and> py_repr env1 = py_repr env2 \<and> py_upper env1 = py_upper env2"

definition same_tables ::
  "(string \<times> 'a Rule \<times> row list) list \<Rightarrow> (string \<times> 'b Rule \<times> row list) list \<Rightarrow> bool" where
  "same_tables d1 d2 =
     list_all2 (\<lambda>e1 e2. fst e1 = fst e2 \<and> snd (snd e1) = snd (snd e2)
                          \<and> all_ok_message (fst (snd e1)) = all_ok_message (fst (snd e2))) d1 d2"

definition same_state :: "'a state \<Rightarrow> 'b state \<Rightarrow> bool" where
  "same_state s1 s2 \<longleftrightarrow>
     report_num s1 = report_num s2 \<and> playbook_count s1 = playbook_count s2
     \<and> role_count s1 = role_count s2
     \<and> same_tables (separate_report_d s1) (separate_report_d s2)
     \<and> role_to_playbook_mappings s1 = role_to_playbook_mappings s2 \<and> heap s1 = heap s2
     \<and> risk_found_playbooks s1 = risk_found_playbooks s2
     \<and> tmp_result_txt s1 = tmp_result_txt s2 \<and> result_dict s1 = result_dict s2"

section \<open>Concrete runs\<close>

text \<open>
  Instances of the parameters for concrete runs: rules that always or never match, a
  rendering of a table with one row per line in place of \<open>tabulate\<close>, the \<open>repr\<close> of a
  string that needs no escaping, and \<open>str.upper\<close> on strings of ASCII characters.
\<close>

definition always_rule :: "string \<Rightarrow> bool \<Rightarrow> unit Rule" where
  "always_rule n sep =
     \<lparr>name = n, enabled = True, separate_report = sep, all_ok_message = [],
      check = (\<lambda>tcs extra. (True, (), ''found''))\<rparr>"

definition never_rule :: "string \<Rightarrow> bool \<Rightarrow> unit Rule" where
  "never_rule n sep =
     \<lparr>name = n, enabled = True, separate_report = sep, all_ok_message = ''All <SUBJECT> are fine'',
      check = (\<lambda>tcs extra. (False, (), []))\<rparr>"

definition plain_rows :: "row list \<Rightarrow> string" where
  "plain_rows table_data =
     join NL (map (\<lambda>r. case r of (label, n, message) \<Rightarrow> label @ ''  '' @ str_name n @ ''  '' @ message)
                  table_data)"

definition quoted :: "string \<Rightarrow> string" where
  "quoted s = [CHR 0x27] @ s @ [CHR 0x27]"

definition ascii_upper_chr :: "char \<Rightarrow> char" where
  "ascii_upper_chr c =
     (case map_of (zip ''abcdefghijklmnopqrstuvwxyz'' ''ABCDEFGHIJKLMNOPQRSTUVWXYZ'') c of
        Some u \<Rightarrow> u
      | None \<Rightarrow> c)"

definition ascii_upper :: "string \<Rightarrow> string" where
  "ascii_upper s = map ascii_upper_chr s"

definition example_env :: "unit Rule list \<Rightarrow> unit env" where
  "example_env rs =
     \<lparr>rules = rs, detect_type = detect_type_of_key, subject_placeholder = ''<SUBJECT>'',
      tabulate = plain_rows, py_repr = quoted, py_upper = ascii_upper\<rparr>"

definition example_task :: "string \<Rightarrow> TaskCall" where
  "example_task d =
     \<lparr>spec = \<lparr>resolved_name = ''ansible.builtin.package'',
              module_options = PyDict [(''name'', PyStr ''git'')],
              defined_in = d\<rparr>\<rparr>"

definition playbook_tree :: "string \<Rightarrow> TaskCallsInTree" where
  "playbook_tree file =
     \<lparr>root_key = ''playbook:playbooks/'' @ file,
      taskcalls = [example_task ''roles/web/tasks/main.yml'']\<rparr>"

definition role_tree :: TaskCallsInTree where
  "role_tree =
     \<lparr>root_key = ''role:web'', taskcalls = [example_task ''roles/web/tasks/main.yml'']\<rparr>"

definition unknown_tree :: TaskCallsInTree where
  "unknown_tree = \<lparr>root_key = ''taskfile:tasks/x.yml'', taskcalls = []\<rparr>"

text \<open>
  A second implementation of a rule, with another type of the discarded component: it
  matches a tree that has at least one task, and returns the number of tasks beside the
  message. The second environment has the parameters of the first.
\<close>

definition counting_rule :: "string \<Rightarrow> bool \<Rightarrow> nat Rule" where
  "counting_rule n sep =
     \<lparr>name = n, enabled = True, separate_report = sep, all_ok_message = [],
      check = (\<lambda>tcs extra. (tcs \<noteq> [], length tcs, ''found''))\<rparr>"

definition second_env :: "nat Rule list \<Rightarrow> nat env" where
  "second_env rs =
     \<lparr>rules = rs, detect_type = detect_type_of_key, subject_placeholder = ''<SUBJECT>'',
      tabulate = plain_rows, py_repr = quoted, py_upper = ascii_upper\<rparr>"

section \<open>Properties of the loops\<close>

subsection \<open>The body of the loop over the rules\<close>

lemma rule_body_do_report:
  "fst (snd (rule_body tcs ex ty nm pb r (s, d, alt))) = (d \<or> (inline_match tcs ex r \<and> \<not> pb))"
  by (auto simp: rule_body_def Let_def inline_match_def matched_def split: prod.splits)

lemma rule_body_alt:
  "snd (snd (rule_body tcs ex ty nm pb r (s, d, alt)))
     = alt @ (if inline_match tcs ex r \<and> \<not> pb then inline_text tcs ex r else [])"
  by (auto simp: rule_body_def Let_def inline_match_def inline_text_def message_of_def matched_def split: prod.splits)

lemma rule_body_frame:
  "report_num (fst (rule_body tcs ex ty nm pb r (s, d, alt))) = report_num s"
  "playbook_count (fst (rule_body tcs ex ty nm pb r (s, d, alt))) = playbook_count s"
  "role_count (fst (rule_body tcs ex ty nm pb r (s, d, alt))) = role_count s"
  "risk_found_playbooks (fst (rule_body tcs ex ty nm pb r (s, d, alt))) = risk_found_playbooks s"
  "tmp_result_txt (fst (rule_body tcs ex ty nm pb r (s, d, alt))) = tmp_result_txt s"
  "role_to_playbook_mappings (fst (rule_body tcs ex ty nm pb r (s, d, alt))) = role_to_playbook_mappings s"
  by (auto simp: rule_body_def Let_def split: prod.splits)

lemma rule_body_heap:
  "heap (fst (rule_body tcs ex ty nm pb r (s, d, alt)))
     = heap s @ (if inline_match tcs ex r \<and> \<not> pb \<and> lookup_addr (role_to_playbook_mappings s) nm = None
                 then [[]] else [])"
  by (auto simp: rule_body_def Let_def inline_match_def matched_def mappings_get_def lookup_addr_def
           split: prod.splits option.splits)

lemma map_of_sep_append:
  "map_of (sep_append k row d) n
     = (if n = k then map_option (\<lambda>(r, rows). (r, rows @ [row])) (map_of d n) else map_of d n)"
  by (induction d) (auto simp: sep_append_def)

lemma map_of_sep_ensure:
  "map_of (sep_ensure k r d) n = (if n = k \<and> map_of d k = None then Some (r, []) else map_of d n)"
proof (cases "k \<in> fst ` set d")
  case True
  then have "map_of d k \<noteq> None" by (simp add: map_of_eq_None_iff)
  with True show ?thesis by (simp add: sep_ensure_def)
next
  case False
  then have "map_of d k = None" by (simp add: map_of_eq_None_iff)
  with False show ?thesis by (auto simp: sep_ensure_def map_add_def split: option.splits)
qed

lemma rows_of_ensure_append:
  "rows_of (sep_append k row (sep_ensure k r d)) n = rows_of d n @ (if n = k then [row] else [])"
  by (auto simp: rows_of_def map_of_sep_append map_of_sep_ensure split: option.splits)

lemma rows_of_ensure: "rows_of (sep_ensure k r d) n = rows_of d n"
  by (auto simp: rows_of_def map_of_sep_ensure split: option.splits)

lemma rule_body_rows:
  "rows_of (separate_report_d (fst (rule_body tcs ex ty nm pb r (s, d, alt)))) n
     = rows_of (separate_report_d s) n
       @ (if tabulated_match tcs ex r \<and> name r = n then [tab_row tcs ex ty nm r] else [])"
  by (auto simp: rule_body_def Let_def tabulated_match_def matched_def tab_row_def message_of_def
                 rows_of_ensure_append rows_of_ensure split: prod.splits)

lemma keys_dict_append: "fst ` set (dict_append k e d) = insert k (fst ` set d)"
  by (force simp: dict_append_def split: if_splits)

lemma map_fst_dict_update:
  "map (fst \<circ> (\<lambda>(k', es). if k' = k then (k', es @ [e]) else (k', es))) d = map fst d"
  by (induction d) auto

lemma distinct_dict_append: "distinct (map fst d) \<Longrightarrow> distinct (map fst (dict_append k e d))"
  by (auto simp: dict_append_def map_fst_dict_update)

lemma rule_body_keys:
  "fst ` set (result_dict (fst (rule_body tcs ex ty nm pb r (s, d, alt))))
     = fst ` set (result_dict s) \<union> (if recorded_match tcs ex pb r then {name r} else {})"
  by (auto simp: rule_body_def Let_def recorded_match_def tabulated_match_def inline_match_def matched_def
                 keys_dict_append split: prod.splits)

lemma rule_body_distinct:
  "distinct (map fst (result_dict s))
     \<Longrightarrow> distinct (map fst (result_dict (fst (rule_body tcs ex ty nm pb r (s, d, alt)))))"
  by (auto simp: rule_body_def Let_def distinct_dict_append split: prod.splits)

subsection \<open>The loop over the rules\<close>

lemma rules_loop_Cons_unfold:
  "rules_loop (r # rs) tcs ex ty nm pb (s, d, alt)
     = rules_loop rs tcs ex ty nm pb
         (fst (rule_body tcs ex ty nm pb r (s, d, alt)),
          fst (snd (rule_body tcs ex ty nm pb r (s, d, alt))),
          snd (snd (rule_body tcs ex ty nm pb r (s, d, alt))))"
  by simp

lemma rules_loop_do_report:
  "fst (snd (rules_loop rs tcs ex ty nm pb (s, d, alt)))
     = (d \<or> (\<not> pb \<and> filter (inline_match tcs ex) rs \<noteq> []))"
proof (induction rs arbitrary: s d alt)
  case Nil
  show ?case by simp
next
  case (Cons r rs)
  show ?case
    unfolding rules_loop_Cons_unfold Cons.IH rule_body_do_report by auto
qed

lemma rules_loop_alt:
  "snd (snd (rules_loop rs tcs ex ty nm pb (s, d, alt)))
     = alt @ (if pb then [] else concat (map (inline_text tcs ex) (filter (inline_match tcs ex) rs)))"
proof (induction rs arbitrary: s d alt)
  case Nil
  show ?case by simp
next
  case (Cons r rs)
  show ?case
    unfolding rules_loop_Cons_unfold Cons.IH rule_body_alt by auto
qed

lemma rules_loop_frame:
  "report_num (fst (rules_loop rs tcs ex ty nm pb (s, d, alt))) = report_num s"
  "playbook_count (fst (rules_loop rs tcs ex ty nm pb (s, d, alt))) = playbook_count s"
  "role_count (fst (rules_loop rs tcs ex ty nm pb (s, d, alt))) = role_count s"
  "risk_found_playbooks (fst (rules_loop rs tcs ex ty nm pb (s, d, alt))) = risk_found_playbooks s"
  "tmp_result_txt (fst (rules_loop rs tcs ex ty nm pb (s, d, alt))) = tmp_result_txt s"
  "role_to_playbook_mappings (fst (rules_loop rs tcs ex ty nm pb (s, d, alt))) = role_to_playbook_mappings s"
proof (induction rs arbitrary: s d alt)
  case Nil
  {
    case 1 show ?case by simp
  next
    case 2 show ?case by simp
  next
    case 3 show ?case by simp
  next
    case 4 show ?case by simp
  next
    case 5 show ?case by simp
  next
    case 6 show ?case by simp
  }
next
  case (Cons r rs)
  {
    case 1 show ?case unfolding rules_loop_Cons_unfold Cons.IH rule_body_frame ..
  next
    case 2 show ?case unfolding rules_loop_Cons_unfold Cons.IH rule_body_frame ..
  next
    case 3 show ?case unfolding rules_loop_Cons_unfold Cons.IH rule_body_frame ..
  next
    case 4 show ?case unfolding rules_loop_Cons_unfold Cons.IH rule_body_frame ..
  next
    case 5 show ?case unfolding rules_loop_Cons_unfold Cons.IH rule_body_frame ..
  next
    case 6 show ?case unfolding rules_loop_Cons_unfold Cons.IH rule_body_frame ..
  }
qed

lemma rules_loop_heap:
  "heap (fst (rules_loop rs tcs ex ty nm pb (s, d, alt)))
     = heap s @ replicate (if \<not> pb \<and> lookup_addr (role_to_playbook_mappings s) nm = None
                           then length (filter (inline_match tcs ex) rs) else 0) []"
proof (induction rs arbitrary: s d alt)
  case Nil
  show ?case by simp
next
  case (Cons r rs)
  show ?case
    unfolding rules_loop_Cons_unfold Cons.IH rule_body_heap rule_body_frame
    by (auto simp: replicate_app_Cons_same)
qed

lemma rules_loop_rows:
  "rows_of (separate_report_d (fst (rules_loop rs tcs ex ty nm pb (s, d, alt)))) n
     = rows_of (separate_report_d s) n
       @ map (tab_row tcs ex ty nm) (filter (\<lambda>r. tabulated_match tcs ex r \<and> name r = n) rs)"
proof (induction rs arbitrary: s d alt)
  case Nil
  show ?case by simp
next
  case (Cons r rs)
  show ?case
    unfolding rules_loop_Cons_unfold Cons.IH rule_body_rows by auto
qed

lemma rules_loop_keys:
  "fst ` set (result_dict (fst (rules_loop rs tcs ex ty nm pb (s, d, alt))))
     = fst ` set (result_dict s) \<union> name ` {r \<in> set rs. recorded_match tcs ex pb r}"
proof (induction rs arbitrary: s d alt)
  case Nil
  show ?case by simp
next
  case (Cons r rs)
  show ?case
    unfolding rules_loop_Cons_unfold Cons.IH rule_body_keys by auto
qed

lemma rules_loop_distinct:
  "distinct (map fst (result_dict s))
     \<Longrightarrow> distinct (map fst (result_dict (fst (rules_loop rs tcs ex ty nm pb (s, d, alt)))))"
proof (induction rs arbitrary: s d alt)
  case Nil
  then show ?case by simp
next
  case (Cons r rs)
  show ?case
    unfolding rules_loop_Cons_unfold
    by (rule Cons.IH) (rule rule_body_distinct [OF Cons.prems])
qed

subsection \<open>Registration of roles and the store\<close>

lemma add_once_idem: "add_once x (add_once x l) = add_once x l"
  by (simp add: add_once_def)

lemma wf_store_lt: "wf_store m h \<Longrightarrow> m r = Some a \<Longrightarrow> a < length h"
  by (simp add: wf_store_def)

lemma wf_store_distinct: "wf_store m h \<Longrightarrow> m r = Some a \<Longrightarrow> distinct (h ! a)"
  by (simp add: wf_store_def)

lemma wf_store_inj: "wf_store m h \<Longrightarrow> m r1 = Some a \<Longrightarrow> m r2 = Some a \<Longrightarrow> r1 = r2"
  unfolding wf_store_def by blast

lemma register_one_wf:
  assumes "wf_store m h" and "register_one P rn (m, h) = (m', h')"
  shows "wf_store m' h'"
proof (cases "m rn")
  case None
  with assms(2) have m': "m' = m(rn \<mapsto> length h)" and h': "h' = h @ [[P]]"
    by (auto simp: register_one_def mappings_get_def)
  have lt: "\<And>r a. m r = Some a \<Longrightarrow> a < length h"
    using assms(1) by (rule wf_store_lt)
  have di: "\<And>r a. m r = Some a \<Longrightarrow> distinct (h ! a)"
    using assms(1) by (rule wf_store_distinct)
  have inj: "\<And>r1 r2 a. m r1 = Some a \<Longrightarrow> m r2 = Some a \<Longrightarrow> r1 = r2"
    using assms(1) by (rule wf_store_inj)
  show ?thesis
    unfolding wf_store_def m' h'
  proof (intro conjI allI impI)
    fix r a assume "(m(rn \<mapsto> length h)) r = Some a"
    then show "a < length (h @ [[P]])"
      by (auto dest: lt split: if_splits simp: less_Suc_eq)
  next
    fix r a assume "(m(rn \<mapsto> length h)) r = Some a"
    then show "distinct ((h @ [[P]]) ! a)"
      by (auto dest: lt di split: if_splits simp: nth_append)
  next
    fix r1 r2 a assume "(m(rn \<mapsto> length h)) r1 = Some a \<and> (m(rn \<mapsto> length h)) r2 = Some a"
    then show "r1 = r2"
      by (auto dest: lt inj split: if_splits)
  qed
next
  case (Some a)
  with assms(2) have m': "m' = m" and h': "h' = (if P \<in> set (h ! a) then h else h[a := (h ! a) @ [P]])"
    by (auto simp: register_one_def mappings_get_def fun_upd_idem)
  from assms(1) Some show ?thesis
    unfolding wf_store_def m' h'
    by (auto simp: nth_list_update)
qed

lemma register_one_view:
  assumes "wf_store m h" and "register_one P rn (m, h) = (m', h')"
  shows "store_view m' h' r
           = (if r = rn then Some (add_once P (names_of (store_view m h r))) else store_view m h r)"
proof (cases "m rn")
  case None
  with assms(2) have m': "m' = m(rn \<mapsto> length h)" and h': "h' = h @ [[P]]"
    by (auto simp: register_one_def mappings_get_def)
  from assms(1) None show ?thesis
    unfolding wf_store_def m' h'
    by (auto simp: store_view_def names_of_def add_once_def nth_append map_option_case split: option.splits)
next
  case (Some a)
  with assms(2) have m': "m' = m" and h': "h' = (if P \<in> set (h ! a) then h else h[a := (h ! a) @ [P]])"
    by (auto simp: register_one_def mappings_get_def fun_upd_idem)
  from assms(1) Some show ?thesis
    unfolding wf_store_def m' h'
    by (auto simp: store_view_def names_of_def add_once_def nth_list_update map_option_case split: option.splits)
qed

lemma register_roles_inv:
  assumes "wf_store m h" and "register_roles P tcs (m, h) = Inr (m', h')"
  shows "wf_store m' h' \<and>
         (\<forall>r. store_view m' h' r
               = (if Some r \<in> role_of_task ` set tcs
                  then Some (add_once P (names_of (store_view m h r)))
                  else store_view m h r))"
  using assms
proof (induction tcs arbitrary: m h)
  case Nil
  then show ?case by simp
next
  case (Cons tc rest)
  show ?case
  proof (cases "role_of_task tc")
    case None
    with Cons.prems(2) have "register_roles P rest (m, h) = Inr (m', h')"
      by (auto simp: role_of_task_def split: list.splits if_splits)
    from Cons.IH [OF Cons.prems(1) this] None show ?thesis by auto
  next
    case (Some rn)
    obtain m1 h1 where one: "register_one P rn (m, h) = (m1, h1)"
      by (cases "register_one P rn (m, h)")
    from Some Cons.prems(2) one have rest: "register_roles P rest (m1, h1) = Inr (m', h')"
      by (auto simp: role_of_task_def split: list.splits if_splits)
    have wf1: "wf_store m1 h1" by (rule register_one_wf [OF Cons.prems(1) one])
    note v1 = register_one_view [OF Cons.prems(1) one]
    from Cons.IH [OF wf1 rest] have wf': "wf_store m' h'"
      and v': "\<And>r. store_view m' h' r
               = (if Some r \<in> role_of_task ` set rest
                  then Some (add_once P (names_of (store_view m1 h1 r)))
                  else store_view m1 h1 r)" by auto
    have "store_view m' h' r
               = (if Some r \<in> role_of_task ` set (tc # rest)
                  then Some (add_once P (names_of (store_view m h r)))
                  else store_view m h r)" for r
      unfolding v' v1 using Some
      by (auto simp: names_of_def add_once_idem)
    with wf' show ?thesis by blast
  qed
qed

subsection \<open>Emission of a numbered section\<close>

lemma mappings_get_nth:
  "mappings_get m h nm = (a, h') \<Longrightarrow>
     h' ! a = (case lookup_addr m nm of None \<Rightarrow> [] | Some a \<Rightarrow> h ! a)"
  by (auto simp: mappings_get_def lookup_addr_def split: option.splits)

lemma emit_section_eq:
  "emit_section env ty nm pb (s, d, alt) =
     (if d \<and> alt \<noteq> [] then
        (let u = (case lookup_addr (role_to_playbook_mappings s) nm of None \<Rightarrow> [] | Some a \<Rightarrow> heap s ! a) in
         s\<lparr>tmp_result_txt := tmp_result_txt s @ section_txt env (report_num s) ty nm u alt,
           risk_found_playbooks := risk_found_playbooks s \<union> set u,
           report_num := report_num s + 1,
           playbook_count :=
             (if pb then (playbook_count s)\<lparr>risk := risk (playbook_count s) + 1\<rparr> else playbook_count s),
           role_count :=
             (if pb then role_count s else (role_count s)\<lparr>risk := risk (role_count s) + 1\<rparr>)\<rparr>)
      else s)"
proof -
  obtain a h' where g: "mappings_get (role_to_playbook_mappings s) (heap s) nm = (a, h')"
    by (cases "mappings_get (role_to_playbook_mappings s) (heap s) nm")
  note n = mappings_get_nth [OF g]
  show ?thesis
    by (simp add: emit_section_def g n Let_def section_txt_def)
qed

lemma emit_section_frame:
  "role_to_playbook_mappings (emit_section env ty nm pb (s, d, alt)) = role_to_playbook_mappings s"
  "heap (emit_section env ty nm pb (s, d, alt)) = heap s"
  "separate_report_d (emit_section env ty nm pb (s, d, alt)) = separate_report_d s"
  "result_dict (emit_section env ty nm pb (s, d, alt)) = result_dict s"
  by (simp_all add: emit_section_eq Let_def)

lemma emit_section_totals:
  "total (playbook_count (emit_section env ty nm pb (s, d, alt))) = total (playbook_count s)"
  "total (role_count (emit_section env ty nm pb (s, d, alt))) = total (role_count s)"
  by (simp_all add: emit_section_eq Let_def)

lemma emit_section_False: "emit_section env ty nm pb (s, False, alt) = s"
  by (simp add: emit_section_eq)

lemma inline_text_ne: "inline_text tcs ex r \<noteq> []"
  by (simp add: inline_text_def)

lemma concat_inline_text_ne:
  "rs \<noteq> [] \<Longrightarrow> concat (map (inline_text tcs ex) rs) \<noteq> []"
  by (cases rs) (simp_all add: inline_text_ne)

subsection \<open>One element of the forest\<close>

lemma process_item_NotATree: "process_item env ex s NotATree = Inr s"
  by (simp add: process_item_def)

lemma process_item_role:
  assumes "detect_type env (root_key t) \<noteq> ''playbook''"
  shows "process_item env ex s (Tree t) =
     Inr (emit_section env (detect_type env (root_key t)) (key2name env (root_key t)) False
            (loop_result env ex t (s\<lparr>role_count := (role_count s)\<lparr>total := total (role_count s) + 1\<rparr>\<rparr>)))"
  using assms by (simp add: process_item_def Let_def loop_result_def)

lemma process_item_playbook:
  assumes "detect_type env (root_key t) = ''playbook''"
  shows "process_item env ex s (Tree t) =
     (case register_roles (key2name env (root_key t)) (taskcalls t) (role_to_playbook_mappings s, heap s) of
        Inl e \<Rightarrow> Inl e
      | Inr (m, h) \<Rightarrow>
          Inr (fst (loop_result env ex t
                 (s\<lparr>playbook_count := (playbook_count s)\<lparr>total := total (playbook_count s) + 1\<rparr>,
                    role_to_playbook_mappings := m, heap := h\<rparr>))))"
proof -
  have "emit_section env ty nm True (rules_loop rs tcs ex ty nm True (s1, False, []))
          = fst (rules_loop rs tcs ex ty nm True (s1, False, []))" for ty nm rs tcs s1
  proof -
    obtain s2 d alt where X: "rules_loop rs tcs ex ty nm True (s1, False, []) = (s2, d, alt)"
      by (cases "rules_loop rs tcs ex ty nm True (s1, False, [])")
    have "d = fst (snd (rules_loop rs tcs ex ty nm True (s1, False, [])))" by (simp add: X)
    then have "\<not> d" by (simp add: rules_loop_do_report)
    then show ?thesis by (simp add: X emit_section_False)
  qed
  with assms show ?thesis
    by (simp add: process_item_def Let_def loop_result_def split: sum.splits prod.splits)
qed

lemma loop_result_frame:
  "report_num (fst (loop_result env ex t s1)) = report_num s1"
  "playbook_count (fst (loop_result env ex t s1)) = playbook_count s1"
  "role_count (fst (loop_result env ex t s1)) = role_count s1"
  "risk_found_playbooks (fst (loop_result env ex t s1)) = risk_found_playbooks s1"
  "tmp_result_txt (fst (loop_result env ex t s1)) = tmp_result_txt s1"
  "role_to_playbook_mappings (fst (loop_result env ex t s1)) = role_to_playbook_mappings s1"
  by (simp_all add: loop_result_def rules_loop_frame)

lemma loop_result_heap:
  "\<exists>k. heap (fst (loop_result env ex t s1)) = heap s1 @ replicate k []"
  unfolding loop_result_def rules_loop_heap by blast

lemma loop_result_heap_found:
  "lookup_addr (role_to_playbook_mappings s1) (key2name env (root_key t)) = Some a
     \<Longrightarrow> heap (fst (loop_result env ex t s1)) = heap s1"
  unfolding loop_result_def rules_loop_heap by simp

lemma loop_result_do_report:
  "fst (snd (loop_result env ex t s1))
     = (detect_type env (root_key t) \<noteq> ''playbook'' \<and> inline_matches env ex t \<noteq> [])"
  by (auto simp: loop_result_def rules_loop_do_report inline_matches_def)

lemma loop_result_alt:
  "snd (snd (loop_result env ex t s1))
     = (if detect_type env (root_key t) = ''playbook'' then [] else inline_body env ex t)"
  by (simp add: loop_result_def rules_loop_alt inline_body_def inline_matches_def)

lemma inline_body_ne: "inline_matches env ex t \<noteq> [] \<Longrightarrow> inline_body env ex t \<noteq> []"
  unfolding inline_body_def by (rule concat_inline_text_ne)

lemma wf_store_extend:
  assumes "wf_store m h"
  shows "wf_store m (h @ replicate k [])"
proof -
  have lt: "\<And>r a. m r = Some a \<Longrightarrow> a < length h"
    using assms by (rule wf_store_lt)
  have di: "\<And>r a. m r = Some a \<Longrightarrow> distinct (h ! a)"
    using assms by (rule wf_store_distinct)
  have inj: "\<And>r1 r2 a. m r1 = Some a \<Longrightarrow> m r2 = Some a \<Longrightarrow> r1 = r2"
    using assms by (rule wf_store_inj)
  show ?thesis
    unfolding wf_store_def
  proof (intro conjI allI impI)
    fix r a assume "m r = Some a"
    then show "a < length (h @ replicate k [])" using lt [of r a] by simp
  next
    fix r a assume "m r = Some a"
    then show "distinct ((h @ replicate k []) ! a)" using lt [of r a] di [of r a] by (simp add: nth_append)
  next
    fix r1 r2 a assume "m r1 = Some a \<and> m r2 = Some a"
    then show "r1 = r2" using inj by blast
  qed
qed

lemma store_view_extend: "wf_store m h \<Longrightarrow> store_view m (h @ ext) r = store_view m h r"
  by (cases "m r") (auto simp: store_view_def nth_append dest: wf_store_lt)

lemma process_item_role_effect:
  assumes np: "detect_type env (root_key t) \<noteq> ''playbook''"
  defines "ty \<equiv> detect_type env (root_key t)" and "nm \<equiv> key2name env (root_key t)"
  shows "\<exists>s'. process_item env ex s (Tree t) = Inr s'
     \<and> report_num s' = report_num s + (if inline_matches env ex t \<noteq> [] then 1 else 0)
     \<and> risk (role_count s') = risk (role_count s) + (if inline_matches env ex t \<noteq> [] then 1 else 0)
     \<and> total (role_count s') = total (role_count s) + 1
     \<and> playbook_count s' = playbook_count s
     \<and> tmp_result_txt s' = tmp_result_txt s
          @ (if inline_matches env ex t \<noteq> []
             then section_txt env (report_num s) ty nm (used_in_of s nm) (inline_body env ex t) else [])
     \<and> risk_found_playbooks s' = risk_found_playbooks s
          \<union> (if inline_matches env ex t \<noteq> [] then set (used_in_of s nm) else {})
     \<and> role_to_playbook_mappings s' = role_to_playbook_mappings s
     \<and> (\<exists>k. heap s' = heap s @ replicate k [])"
proof -
  define s1 where "s1 = s\<lparr>role_count := (role_count s)\<lparr>total := total (role_count s) + 1\<rparr>\<rparr>"
  define X where "X = loop_result env ex t s1"
  define s2 where "s2 = fst X"
  have s1: "report_num s1 = report_num s" "risk (role_count s1) = risk (role_count s)"
    "total (role_count s1) = total (role_count s) + 1" "playbook_count s1 = playbook_count s"
    "tmp_result_txt s1 = tmp_result_txt s" "risk_found_playbooks s1 = risk_found_playbooks s"
    "role_to_playbook_mappings s1 = role_to_playbook_mappings s" "heap s1 = heap s"
    by (simp_all add: s1_def)
  have s2: "report_num s2 = report_num s" "risk (role_count s2) = risk (role_count s)"
    "total (role_count s2) = total (role_count s) + 1" "playbook_count s2 = playbook_count s"
    "tmp_result_txt s2 = tmp_result_txt s" "risk_found_playbooks s2 = risk_found_playbooks s"
    "role_to_playbook_mappings s2 = role_to_playbook_mappings s"
    unfolding s2_def X_def loop_result_frame by (rule s1)+
  obtain k where hp: "heap s2 = heap s @ replicate k []"
    using loop_result_heap [of env ex t s1] unfolding s2_def X_def s1(8) by auto
  have u: "(case lookup_addr (role_to_playbook_mappings s2) nm of None \<Rightarrow> [] | Some a \<Rightarrow> heap s2 ! a)
             = used_in_of s nm"
  proof (cases "lookup_addr (role_to_playbook_mappings s) nm")
    case None
    then show ?thesis
      unfolding s2(7)
      by (auto simp: used_in_of_def lookup_addr_def names_of_def mapping_view_def store_view_def
               split: option.splits)
  next
    case (Some a)
    then have "heap s2 = heap s"
      unfolding s2_def X_def nm_def
      using loop_result_heap_found [of s1 env t a ex] by (simp add: s1)
    with Some show ?thesis
      unfolding s2(7)
      by (auto simp: used_in_of_def lookup_addr_def names_of_def mapping_view_def store_view_def
               split: option.splits)
  qed
  have d: "fst (snd X) = (inline_matches env ex t \<noteq> [])"
    unfolding X_def using np by (simp add: loop_result_do_report)
  have a: "snd (snd X) = inline_body env ex t"
    unfolding X_def using np by (simp add: loop_result_alt)
  have X: "X = (s2, inline_matches env ex t \<noteq> [], inline_body env ex t)"
    using d a by (simp add: prod_eq_iff s2_def)
  have pi: "process_item env ex s (Tree t) = Inr (emit_section env ty nm False X)"
    unfolding ty_def nm_def X_def s1_def by (rule process_item_role [OF np])
  show ?thesis
  proof (cases "inline_matches env ex t = []")
    case True
    then have "process_item env ex s (Tree t) = Inr s2"
      unfolding pi X by (simp add: emit_section_False)
    then show ?thesis using True hp s2
      by simp
  next
    case False
    then have ne: "inline_body env ex t \<noteq> []" by (rule inline_body_ne)
    have "process_item env ex s (Tree t) =
       Inr (s2\<lparr>tmp_result_txt := tmp_result_txt s2
                   @ section_txt env (report_num s2) ty nm (used_in_of s nm) (inline_body env ex t),
               risk_found_playbooks := risk_found_playbooks s2 \<union> set (used_in_of s nm),
               report_num := report_num s2 + 1,
               playbook_count := playbook_count s2,
               role_count := (role_count s2)\<lparr>risk := risk (role_count s2) + 1\<rparr>\<rparr>)"
      unfolding pi X by (simp add: emit_section_eq False ne u Let_def)
    then show ?thesis using False hp s2
      by simp
  qed
qed

lemma emit_section_frame':
  "role_to_playbook_mappings (emit_section env ty nm pb X) = role_to_playbook_mappings (fst X)"
  "heap (emit_section env ty nm pb X) = heap (fst X)"
  "separate_report_d (emit_section env ty nm pb X) = separate_report_d (fst X)"
  "result_dict (emit_section env ty nm pb X) = result_dict (fst X)"
  by (cases X; simp add: emit_section_frame)+

lemma process_item_playbook_effect:
  assumes pb: "detect_type env (root_key t) = ''playbook''"
    and wf: "wf_state s"
    and ok: "process_item env ex s (Tree t) = Inr s'"
  shows "report_num s' = report_num s"
    and "role_count s' = role_count s"
    and "risk (playbook_count s') = risk (playbook_count s)"
    and "total (playbook_count s') = total (playbook_count s) + 1"
    and "tmp_result_txt s' = tmp_result_txt s"
    and "risk_found_playbooks s' = risk_found_playbooks s"
    and "wf_state s'"
    and "mapping_view s' r
           = (if Some r \<in> role_of_task ` set (taskcalls t)
              then Some (add_once (key2name env (root_key t)) (names_of (mapping_view s r)))
              else mapping_view s r)"
proof -
  from ok obtain m h where
    reg: "register_roles (key2name env (root_key t)) (taskcalls t) (role_to_playbook_mappings s, heap s) = Inr (m, h)"
    unfolding process_item_playbook [OF pb] by (auto split: sum.splits)
  define s1 where "s1 = s\<lparr>playbook_count := (playbook_count s)\<lparr>total := total (playbook_count s) + 1\<rparr>,
                    role_to_playbook_mappings := m, heap := h\<rparr>"
  have s': "s' = fst (loop_result env ex t s1)"
    using ok unfolding process_item_playbook [OF pb] reg s1_def by simp
  have s1: "report_num s1 = report_num s" "role_count s1 = role_count s"
    "risk (playbook_count s1) = risk (playbook_count s)"
    "total (playbook_count s1) = total (playbook_count s) + 1"
    "tmp_result_txt s1 = tmp_result_txt s" "risk_found_playbooks s1 = risk_found_playbooks s"
    "role_to_playbook_mappings s1 = m" "heap s1 = h"
    by (simp_all add: s1_def)
  show "report_num s' = report_num s" "role_count s' = role_count s"
    "risk (playbook_count s') = risk (playbook_count s)"
    "total (playbook_count s') = total (playbook_count s) + 1"
    "tmp_result_txt s' = tmp_result_txt s" "risk_found_playbooks s' = risk_found_playbooks s"
    unfolding s' loop_result_frame by (rule s1)+
  have m': "role_to_playbook_mappings s' = m"
    unfolding s' loop_result_frame by (rule s1)
  obtain k where h': "heap s' = h @ replicate k []"
    using loop_result_heap [of env ex t s1] unfolding s' s1(8) by auto
  from register_roles_inv [OF wf [unfolded wf_state_def] reg]
  have wfm: "wf_store m h"
    and v: "\<And>r. store_view m h r
               = (if Some r \<in> role_of_task ` set (taskcalls t)
                  then Some (add_once (key2name env (root_key t))
                               (names_of (store_view (role_to_playbook_mappings s) (heap s) r)))
                  else store_view (role_to_playbook_mappings s) (heap s) r)"
    by auto
  show "wf_state s'"
    unfolding wf_state_def m' h' by (rule wf_store_extend [OF wfm])
  show "mapping_view s' r
           = (if Some r \<in> role_of_task ` set (taskcalls t)
              then Some (add_once (key2name env (root_key t)) (names_of (mapping_view s r)))
              else mapping_view s r)"
    unfolding mapping_view_def m' h' store_view_extend [OF wfm] by (rule v)
qed

lemma process_item_role_store:
  assumes np: "detect_type env (root_key t) \<noteq> ''playbook''"
    and wf: "wf_state s"
    and ok: "process_item env ex s (Tree t) = Inr s'"
  shows "wf_state s'" and "mapping_view s' r = mapping_view s r"
proof -
  from process_item_role_effect [OF np, of ex s] ok
  obtain k where m': "role_to_playbook_mappings s' = role_to_playbook_mappings s"
    and h': "heap s' = heap s @ replicate k []" by auto
  show "wf_state s'"
    unfolding wf_state_def m' h' by (rule wf_store_extend [OF wf [unfolded wf_state_def]])
  show "mapping_view s' r = mapping_view s r"
    unfolding mapping_view_def m' h' by (rule store_view_extend [OF wf [unfolded wf_state_def]])
qed

lemma process_item_wf:
  assumes "wf_state s" and "process_item env ex s item = Inr s'"
  shows "wf_state s'"
proof (cases item)
  case NotATree
  with assms show ?thesis by (simp add: process_item_NotATree)
next
  case (Tree t)
  show ?thesis
  proof (cases "detect_type env (root_key t) = ''playbook''")
    case True
    from process_item_playbook_effect(7) [OF True assms(1) assms(2) [unfolded Tree]] show ?thesis .
  next
    case False
    from process_item_role_store(1) [OF False assms(1) assms(2) [unfolded Tree]] show ?thesis .
  qed
qed

subsection \<open>The whole forest\<close>

lemma wf_init_state: "wf_state init_state"
  by (simp add: wf_state_def wf_store_def init_state_def)

lemma detect_loop_wf:
  "wf_state s \<Longrightarrow> detect_loop env ex s forest = Inr s' \<Longrightarrow> wf_state s'"
proof (induction forest arbitrary: s)
  case Nil
  then show ?case by simp
next
  case (Cons item rest)
  from Cons.prems(2) obtain s1 where p: "process_item env ex s item = Inr s1"
    and r: "detect_loop env ex s1 rest = Inr s'"
    by (auto split: sum.splits)
  from Cons.IH [OF process_item_wf [OF Cons.prems(1) p] r] show ?case .
qed

lemma reachable_wf: "detect_loop env ex init_state forest = Inr s \<Longrightarrow> wf_state s"
  by (rule detect_loop_wf [OF wf_init_state])

lemma detect_loop_append:
  "detect_loop env ex s (xs @ ys)
     = (case detect_loop env ex s xs of Inl e \<Rightarrow> Inl e | Inr s1 \<Rightarrow> detect_loop env ex s1 ys)"
  by (induction xs arbitrary: s) (auto split: sum.splits)

subsection \<open>Tables, structured records and counters\<close>

lemma process_item_tables:
  assumes "process_item env ex s (Tree t) = Inr s'"
  shows "\<exists>s1. result_dict s1 = result_dict s \<and> separate_report_d s1 = separate_report_d s
            \<and> result_dict s' = result_dict (fst (loop_result env ex t s1))
            \<and> separate_report_d s' = separate_report_d (fst (loop_result env ex t s1))"
proof (cases "detect_type env (root_key t) = ''playbook''")
  case True
  from assms obtain m h where
    s': "s' = fst (loop_result env ex t
                 (s\<lparr>playbook_count := (playbook_count s)\<lparr>total := total (playbook_count s) + 1\<rparr>,
                    role_to_playbook_mappings := m, heap := h\<rparr>))"
    unfolding process_item_playbook [OF True] by (auto split: sum.splits)
  show ?thesis
    unfolding s'
    by (rule exI [of _ "s\<lparr>playbook_count := (playbook_count s)\<lparr>total := total (playbook_count s) + 1\<rparr>,
                    role_to_playbook_mappings := m, heap := h\<rparr>"]) simp
next
  case False
  from assms have
    s': "s' = emit_section env (detect_type env (root_key t)) (key2name env (root_key t)) False
            (loop_result env ex t (s\<lparr>role_count := (role_count s)\<lparr>total := total (role_count s) + 1\<rparr>\<rparr>))"
    unfolding process_item_role [OF False] by simp
  show ?thesis
    unfolding s' emit_section_frame'
    by (rule exI [of _ "s\<lparr>role_count := (role_count s)\<lparr>total := total (role_count s) + 1\<rparr>\<rparr>"]) simp
qed

lemma process_item_rows:
  assumes "process_item env ex s (Tree t) = Inr s'"
  shows "rows_of (separate_report_d s') n
           = rows_of (separate_report_d s) n
             @ map (tab_row (taskcalls t) ex (detect_type env (root_key t)) (key2name env (root_key t)))
                   (filter (\<lambda>r. tabulated_match (taskcalls t) ex r \<and> name r = n) (rules env))"
proof -
  from process_item_tables [OF assms] obtain s1 where
    a: "separate_report_d s1 = separate_report_d s"
    and b: "separate_report_d s' = separate_report_d (fst (loop_result env ex t s1))" by blast
  show ?thesis
    unfolding b loop_result_def rules_loop_rows a ..
qed

lemma process_item_keys:
  assumes "process_item env ex s (Tree t) = Inr s'"
  shows "fst ` set (result_dict s')
           = fst ` set (result_dict s)
             \<union> name ` {r \<in> set (rules env).
                         recorded_match (taskcalls t) ex (detect_type env (root_key t) = ''playbook'') r}"
    and "distinct (map fst (result_dict s)) \<Longrightarrow> distinct (map fst (result_dict s'))"
proof -
  from process_item_tables [OF assms] obtain s1 where
    a: "result_dict s1 = result_dict s"
    and b: "result_dict s' = result_dict (fst (loop_result env ex t s1))" by blast
  show "fst ` set (result_dict s')
           = fst ` set (result_dict s)
             \<union> name ` {r \<in> set (rules env).
                         recorded_match (taskcalls t) ex (detect_type env (root_key t) = ''playbook'') r}"
    unfolding b loop_result_def rules_loop_keys a ..
  show "distinct (map fst (result_dict s'))" if d: "distinct (map fst (result_dict s))"
    unfolding b loop_result_def
    by (rule rules_loop_distinct) (simp add: a d)
qed

lemma detect_loop_keys:
  assumes "detect_loop env ex s forest = Inr s'"
  shows "fst ` set (result_dict s')
           = fst ` set (result_dict s)
             \<union> name ` {r \<in> set (rules env). \<exists>t. Tree t \<in> set forest \<and>
                         recorded_match (taskcalls t) ex (detect_type env (root_key t) = ''playbook'') r}"
  using assms
proof (induction forest arbitrary: s)
  case Nil
  then show ?case by simp
next
  case (Cons item rest)
  from Cons.prems obtain s1 where p: "process_item env ex s item = Inr s1"
    and r: "detect_loop env ex s1 rest = Inr s'"
    by (auto split: sum.splits)
  note ih = Cons.IH [OF r]
  show ?case
  proof (cases item)
    case NotATree
    with p have "s1 = s" by (simp add: process_item_NotATree)
    with ih NotATree show ?thesis by auto
  next
    case (Tree t)
    note k = process_item_keys(1) [OF p [unfolded Tree]]
    show ?thesis unfolding ih k Tree by auto
  qed
qed

lemma detect_loop_distinct:
  assumes "detect_loop env ex s forest = Inr s'" and "distinct (map fst (result_dict s))"
  shows "distinct (map fst (result_dict s'))"
  using assms
proof (induction forest arbitrary: s)
  case Nil
  then show ?case by simp
next
  case (Cons item rest)
  from Cons.prems(1) obtain s1 where p: "process_item env ex s item = Inr s1"
    and r: "detect_loop env ex s1 rest = Inr s'"
    by (auto split: sum.splits)
  have "distinct (map fst (result_dict s1))"
  proof (cases item)
    case NotATree
    with p Cons.prems(2) show ?thesis by (simp add: process_item_NotATree)
  next
    case (Tree t)
    from process_item_keys(2) [OF p [unfolded Tree] Cons.prems(2)] show ?thesis .
  qed
  from Cons.IH [OF r this] show ?case .
qed


lemma process_item_counts:
  assumes "process_item env ex s item = Inr s'"
  shows "total (playbook_count s') = total (playbook_count s) + (if is_playbook_item env item then 1 else 0)"
    and "total (role_count s') = total (role_count s) + (if is_other_tree_item env item then 1 else 0)"
    and "risk (playbook_count s') = risk (playbook_count s)"
proof -
  have "total (playbook_count s') = total (playbook_count s) + (if is_playbook_item env item then 1 else 0)
      \<and> total (role_count s') = total (role_count s) + (if is_other_tree_item env item then 1 else 0)
      \<and> risk (playbook_count s') = risk (playbook_count s)"
  proof (cases item)
    case NotATree
    with assms show ?thesis
      by (simp add: process_item_NotATree is_playbook_item_def is_other_tree_item_def)
  next
    case (Tree t)
    show ?thesis
    proof (cases "detect_type env (root_key t) = ''playbook''")
      case True
      from assms obtain m h where
        s': "s' = fst (loop_result env ex t
                 (s\<lparr>playbook_count := (playbook_count s)\<lparr>total := total (playbook_count s) + 1\<rparr>,
                    role_to_playbook_mappings := m, heap := h\<rparr>))"
        unfolding Tree process_item_playbook [OF True] by (auto split: sum.splits)
      show ?thesis
        unfolding s' loop_result_frame using True
        by (simp add: Tree is_playbook_item_def is_other_tree_item_def)
    next
      case False
      from process_item_role_effect [OF False, of ex s] assms False show ?thesis
        by (auto simp: Tree is_playbook_item_def is_other_tree_item_def)
    qed
  qed
  then show "total (playbook_count s') = total (playbook_count s) + (if is_playbook_item env item then 1 else 0)"
    and "total (role_count s') = total (role_count s) + (if is_other_tree_item env item then 1 else 0)"
    and "risk (playbook_count s') = risk (playbook_count s)"
    by simp_all
qed

lemma detect_loop_counts:
  assumes "detect_loop env ex s forest = Inr s'"
  shows "total (playbook_count s') = total (playbook_count s) + length (filter (is_playbook_item env) forest)
       \<and> total (role_count s') = total (role_count s) + length (filter (is_other_tree_item env) forest)
       \<and> risk (playbook_count s') = risk (playbook_count s)"
  using assms
proof (induction forest arbitrary: s)
  case Nil
  then show ?case by simp
next
  case (Cons item rest)
  from Cons.prems obtain s1 where p: "process_item env ex s item = Inr s1"
    and r: "detect_loop env ex s1 rest = Inr s'"
    by (auto split: sum.splits)
  from Cons.IH [OF r] process_item_counts [OF p] show ?case by simp
qed

lemma make_data_report_details:
  "map detail_rule (details (make_data_report s)) = map fst (result_dict s)"
  by (auto simp: make_data_report_def split: prod.splits)

lemma recorded_match_iff:
  "recorded_match tcs ex pb r
     \<longleftrightarrow> enabled r \<and> matched r tcs ex \<and> (separate_report r \<or> \<not> pb)"
  by (auto simp: recorded_match_def tabulated_match_def inline_match_def)

lemma wf_view_distinct: "wf_state s \<Longrightarrow> mapping_view s r = Some l \<Longrightarrow> distinct l"
  by (auto simp: wf_state_def mapping_view_def store_view_def dest: wf_store_distinct)

lemma inline_only_simps:
  "detect_type (inline_only env) = detect_type env"
  "key2name (inline_only env) k = key2name env k"
  "inline_matches (inline_only env) ex t = inline_matches env ex t"
  "inline_body (inline_only env) ex t = inline_body env ex t"
proof -
  show 1: "detect_type (inline_only env) = detect_type env"
    by (simp add: inline_only_def)
  show "key2name (inline_only env) k = key2name env k"
    by (simp add: key2name_def 1)
  show 3: "inline_matches (inline_only env) ex t = inline_matches env ex t"
    by (auto simp: inline_matches_def inline_only_def inline_match_def intro: filter_cong)
  show "inline_body (inline_only env) ex t = inline_body env ex t"
    by (simp add: inline_body_def 3)
qed

lemma summary_playbooks:
  "map_of (summary (make_data_report s)) ''playbooks'' = Some e \<Longrightarrow> risk_found e = risk (playbook_count s)"
  by (auto simp: make_data_report_def split: if_splits)


subsection \<open>Numbered sections of a run\<close>

lemma make_result_txt_parts:
  "make_result_txt env s = report_head s @ tmp_result_txt s @ report_tables env s"
  by (simp add: make_result_txt_def report_head_def report_tables_def)

lemma inline_matches_ge1:
  "(length (inline_matches env ex t) \<ge> 1) = (inline_matches env ex t \<noteq> [])"
  "(Suc 0 \<le> length (inline_matches env ex t)) = (inline_matches env ex t \<noteq> [])"
  by (cases "inline_matches env ex t"; simp)+

lemma process_item_incident:
  assumes wf: "wf_state s" and p: "process_item env ex s item = Inr s1"
  shows "tmp_result_txt s1 = tmp_result_txt s @ item_section env ex (report_num s) s item"
    and "report_num s1 = (if has_incident env ex item then report_num s + 1 else report_num s)"
    and "risk (role_count s1) = risk (role_count s) + (if has_incident env ex item then 1 else 0)"
proof -
  have "tmp_result_txt s1 = tmp_result_txt s @ item_section env ex (report_num s) s item
      \<and> report_num s1 = (if has_incident env ex item then report_num s + 1 else report_num s)
      \<and> risk (role_count s1) = risk (role_count s) + (if has_incident env ex item then 1 else 0)"
  proof (cases item)
    case NotATree
    with p show ?thesis
      by (simp add: process_item_NotATree item_section_def has_incident_def)
  next
    case (Tree t)
    show ?thesis
    proof (cases "detect_type env (root_key t) = ''playbook''")
      case True
      note e = process_item_playbook_effect [OF True wf p [unfolded Tree]]
      show ?thesis
        unfolding Tree e(1) e(2) e(5) using True
        by (simp add: item_section_def has_incident_def)
    next
      case False
      from process_item_role_effect [OF False, of ex s] p [unfolded Tree] False show ?thesis
        unfolding Tree
        by (auto simp: item_section_def has_incident_def inline_matches_ge1)
    qed
  qed
  then show "tmp_result_txt s1 = tmp_result_txt s @ item_section env ex (report_num s) s item"
    and "report_num s1 = (if has_incident env ex item then report_num s + 1 else report_num s)"
    and "risk (role_count s1) = risk (role_count s) + (if has_incident env ex item then 1 else 0)"
    by simp_all
qed

lemma detect_loop_incidents:
  assumes "wf_state s" and "detect_loop env ex s forest = Inr s'"
  shows "tmp_result_txt s' = tmp_result_txt s @ concat (incident_sections env ex (report_num s) s forest)
       \<and> report_num s' = report_num s + length (filter (has_incident env ex) forest)
       \<and> risk (role_count s') = risk (role_count s) + length (filter (has_incident env ex) forest)
       \<and> length (incident_sections env ex (report_num s) s forest) = length forest"
  using assms
proof (induction forest arbitrary: s)
  case Nil
  then show ?case by simp
next
  case (Cons item rest)
  from Cons.prems(2) obtain s1 where p: "process_item env ex s item = Inr s1"
    and r: "detect_loop env ex s1 rest = Inr s'"
    by (auto split: sum.splits)
  have wf1: "wf_state s1" by (rule process_item_wf [OF Cons.prems(1) p])
  note i = process_item_incident [OF Cons.prems(1) p]
  note ih = Cons.IH [OF wf1 r]
  have u: "incident_sections env ex (report_num s) s (item # rest)
             = item_section env ex (report_num s) s item # incident_sections env ex (report_num s1) s1 rest"
    by (simp add: p i(2))
  show ?case
    unfolding u using ih i by simp
qed

lemma incident_sections_nth:
  assumes "wf_state s" and "detect_loop env ex s (pre @ item # post) = Inr s'"
  shows "\<exists>s_pre. detect_loop env ex s pre = Inr s_pre
           \<and> incident_sections env ex (report_num s) s (pre @ item # post) ! length pre
               = item_section env ex (report_num s + length (filter (has_incident env ex) pre)) s_pre item"
  using assms
proof (induction pre arbitrary: s)
  case Nil
  then show ?case by simp
next
  case (Cons x pre)
  from Cons.prems(2) obtain s1 where p: "process_item env ex s x = Inr s1"
    and r: "detect_loop env ex s1 (pre @ item # post) = Inr s'"
    by (auto split: sum.splits)
  have wf1: "wf_state s1" by (rule process_item_wf [OF Cons.prems(1) p])
  note i = process_item_incident [OF Cons.prems(1) p]
  from Cons.IH [OF wf1 r] obtain s_pre where
    a: "detect_loop env ex s1 pre = Inr s_pre"
    and b: "incident_sections env ex (report_num s1) s1 (pre @ item # post) ! length pre
               = item_section env ex (report_num s1 + length (filter (has_incident env ex) pre)) s_pre item"
    by blast
  have u: "incident_sections env ex (report_num s) s ((x # pre) @ item # post)
             = item_section env ex (report_num s) s x
               # incident_sections env ex (report_num s1) s1 (pre @ item # post)"
    by (simp add: p i(2))
  have "detect_loop env ex s (x # pre) = Inr s_pre"
    by (simp add: p a)
  moreover have "incident_sections env ex (report_num s) s ((x # pre) @ item # post) ! length (x # pre)
      = item_section env ex (report_num s + length (filter (has_incident env ex) (x # pre))) s_pre item"
    unfolding u using b i(2) by simp
  ultimately show ?case by blast
qed

lemma summary_roles:
  "map_of (summary (make_data_report s)) ''roles'' = Some e \<Longrightarrow> risk_found e = risk (role_count s)"
  by (auto simp: make_data_report_def split: if_splits)

subsection \<open>Two runs with rule objects of the same outcome\<close>

lemma same_tables_keys: "same_tables d1 d2 \<Longrightarrow> fst ` set d1 = fst ` set d2"
  unfolding same_tables_def
  by (induction d1 d2 rule: list_all2_induct) auto

lemma same_tables_ensure:
  assumes "same_tables d1 d2" and "all_ok_message r1 = all_ok_message r2"
  shows "same_tables (sep_ensure k r1 d1) (sep_ensure k r2 d2)"
  using assms same_tables_keys [OF assms(1)]
  by (auto simp: sep_ensure_def same_tables_def list_all2_appendI)

lemma same_tables_append:
  assumes "same_tables d1 d2"
  shows "same_tables (sep_append k row d1) (sep_append k row d2)"
  using assms unfolding same_tables_def sep_append_def
  by (induction d1 d2 rule: list_all2_induct) (auto split: prod.splits)

lemma rule_body_same:
  assumes "same_state s1 s2" and "same_outcome tcs ex r1 r2"
  shows "same_state (fst (rule_body tcs ex ty nm pb r1 (s1, d, alt)))
                    (fst (rule_body tcs ex ty nm pb r2 (s2, d, alt)))
       \<and> snd (rule_body tcs ex ty nm pb r1 (s1, d, alt)) = snd (rule_body tcs ex ty nm pb r2 (s2, d, alt))"
proof -
  obtain m1 a1 g1 where c1: "check r1 tcs ex = (m1, a1, g1)" by (cases "check r1 tcs ex")
  obtain m2 a2 g2 where c2: "check r2 tcs ex = (m2, a2, g2)" by (cases "check r2 tcs ex")
  from assms(2) c1 c2 have e: "m2 = m1" "g2 = g1" "name r2 = name r1" "enabled r2 = enabled r1"
    "separate_report r2 = separate_report r1" "all_ok_message r1 = all_ok_message r2"
    by (simp_all add: same_outcome_def matched_def message_of_def)
  from assms(1) have t: "same_tables (separate_report_d s1) (separate_report_d s2)"
    and f: "report_num s1 = report_num s2" "playbook_count s1 = playbook_count s2"
      "role_count s1 = role_count s2"
      "role_to_playbook_mappings s1 = role_to_playbook_mappings s2" "heap s1 = heap s2"
      "risk_found_playbooks s1 = risk_found_playbooks s2"
      "tmp_result_txt s1 = tmp_result_txt s2" "result_dict s1 = result_dict s2"
    by (simp_all add: same_state_def)
  note t1 = same_tables_ensure [OF t e(6), of "name r1"]
  note t2 = same_tables_append [OF t1, of "name r1" "(ty, nm, g1)"]
  show ?thesis
    using t t1 t2 f
    by (simp add: rule_body_def c1 c2 e Let_def same_state_def split: prod.splits)
qed

lemma rules_loop_same:
  assumes "list_all2 (same_outcome tcs ex) rs1 rs2" and "same_state s1 s2"
  shows "same_state (fst (rules_loop rs1 tcs ex ty nm pb (s1, d, alt)))
                    (fst (rules_loop rs2 tcs ex ty nm pb (s2, d, alt)))
       \<and> snd (rules_loop rs1 tcs ex ty nm pb (s1, d, alt)) = snd (rules_loop rs2 tcs ex ty nm pb (s2, d, alt))"
  using assms
proof (induction rs1 rs2 arbitrary: s1 s2 d alt rule: list_all2_induct)
  case Nil
  then show ?case by simp
next
  case (Cons r1 rs1 r2 rs2)
  obtain s1' d1 alt1 where b1: "rule_body tcs ex ty nm pb r1 (s1, d, alt) = (s1', d1, alt1)"
    by (cases "rule_body tcs ex ty nm pb r1 (s1, d, alt)")
  obtain s2' d2 alt2 where b2: "rule_body tcs ex ty nm pb r2 (s2, d, alt) = (s2', d2, alt2)"
    by (cases "rule_body tcs ex ty nm pb r2 (s2, d, alt)")
  from rule_body_same [OF Cons.prems Cons.hyps(1), of ty nm pb d alt]
  have s: "same_state s1' s2'" and e: "d2 = d1" "alt2 = alt1"
    by (simp_all add: b1 b2)
  from Cons.IH [OF s, of d1 alt1] show ?case
    by (simp add: b1 b2 e)
qed


lemma same_parameters_simps:
  assumes "same_parameters env1 env2"
  shows "detect_type env1 = detect_type env2" and "key2name env1 k = key2name env2 k"
    and "section_txt env1 = section_txt env2"
    and "subject_placeholder env1 = subject_placeholder env2" and "tabulate env1 = tabulate env2"
proof -
  from assms show d: "detect_type env1 = detect_type env2"
    and "subject_placeholder env1 = subject_placeholder env2" and "tabulate env1 = tabulate env2"
    by (simp_all add: same_parameters_def)
  show "key2name env1 k = key2name env2 k"
    by (simp add: key2name_def d)
  from assms have r: "py_repr env1 = py_repr env2" and u: "py_upper env1 = py_upper env2"
    by (simp_all add: same_parameters_def)
  have n: "repr_name env1 = repr_name env2"
    by (rule ext) (simp add: repr_name_def r split: option.splits)
  have l: "str_list env1 = str_list env2"
    by (rule ext) (simp add: str_list_def n)
  show "section_txt env1 = section_txt env2"
    by (intro ext) (simp add: section_txt_def l u)
qed

lemma emit_section_same:
  assumes "same_state s1 s2" and "same_parameters env1 env2"
  shows "same_state (emit_section env1 ty nm pb (s1, d, alt)) (emit_section env2 ty nm pb (s2, d, alt))"
proof -
  from assms(1) have t: "same_tables (separate_report_d s1) (separate_report_d s2)"
    and f: "report_num s1 = report_num s2" "playbook_count s1 = playbook_count s2"
      "role_count s1 = role_count s2"
      "role_to_playbook_mappings s1 = role_to_playbook_mappings s2" "heap s1 = heap s2"
      "risk_found_playbooks s1 = risk_found_playbooks s2"
      "tmp_result_txt s1 = tmp_result_txt s2" "result_dict s1 = result_dict s2"
    by (simp_all add: same_state_def)
  show ?thesis
    unfolding emit_section_eq same_parameters_simps(3) [OF assms(2)] f
    using t by (simp add: same_state_def Let_def f)
qed

lemma process_item_same:
  assumes st: "same_state s1 s2" and pa: "same_parameters env1 env2"
    and ru: "\<And>t. item = Tree t \<Longrightarrow> list_all2 (same_outcome (taskcalls t) ex) (rules env1) (rules env2)"
  shows "rel_sum (=) same_state (process_item env1 ex s1 item) (process_item env2 ex s2 item)"
proof (cases item)
  case NotATree
  with st show ?thesis by (simp add: process_item_NotATree)
next
  case (Tree t)
  note ps = same_parameters_simps [OF pa]
  from st have f: "role_to_playbook_mappings s1 = role_to_playbook_mappings s2" "heap s1 = heap s2"
    by (simp_all add: same_state_def)
  have loop: "same_state (fst (loop_result env1 ex t a)) (fst (loop_result env2 ex t b))
       \<and> snd (loop_result env1 ex t a) = snd (loop_result env2 ex t b)" if "same_state a b" for a b
    unfolding loop_result_def ps(1) ps(2) [symmetric]
    by (rule rules_loop_same [OF ru [OF Tree] that])
  show ?thesis
  proof (cases "detect_type env1 (root_key t) = ''playbook''")
    case True
    then have True2: "detect_type env2 (root_key t) = ''playbook''" by (simp add: ps(1))
    show ?thesis
    proof (cases "register_roles (key2name env1 (root_key t)) (taskcalls t)
                    (role_to_playbook_mappings s1, heap s1)")
      case (Inl e)
      then show ?thesis
        unfolding Tree process_item_playbook [OF True] process_item_playbook [OF True2]
        by (simp add: ps(2) [symmetric] f [symmetric])
    next
      case (Inr mh)
      obtain m h where mh: "mh = (m, h)" by (cases mh)
      have "same_state
              (s1\<lparr>playbook_count := (playbook_count s1)\<lparr>total := total (playbook_count s1) + 1\<rparr>,
                  role_to_playbook_mappings := m, heap := h\<rparr>)
              (s2\<lparr>playbook_count := (playbook_count s2)\<lparr>total := total (playbook_count s2) + 1\<rparr>,
                  role_to_playbook_mappings := m, heap := h\<rparr>)"
        using st by (simp add: same_state_def)
      from loop [OF this] Inr show ?thesis
        unfolding Tree process_item_playbook [OF True] process_item_playbook [OF True2]
        by (simp add: ps(2) [symmetric] f [symmetric] mh)
    qed
  next
    case False
    then have False2: "detect_type env2 (root_key t) \<noteq> ''playbook''" by (simp add: ps(1))
    define a where "a = s1\<lparr>role_count := (role_count s1)\<lparr>total := total (role_count s1) + 1\<rparr>\<rparr>"
    define b where "b = s2\<lparr>role_count := (role_count s2)\<lparr>total := total (role_count s2) + 1\<rparr>\<rparr>"
    have "same_state a b" using st by (simp add: same_state_def a_def b_def)
    note l = loop [OF this]
    obtain x d alt where X: "loop_result env1 ex t a = (x, d, alt)"
      by (cases "loop_result env1 ex t a")
    obtain y d' alt' where Y: "loop_result env2 ex t b = (y, d', alt')"
      by (cases "loop_result env2 ex t b")
    from l have xy: "same_state x y" and e: "d' = d" "alt' = alt"
      by (simp_all add: X Y)
    have p1: "process_item env1 ex s1 (Tree t)
                = Inr (emit_section env1 (detect_type env1 (root_key t)) (key2name env1 (root_key t)) False
                         (x, d, alt))"
      unfolding process_item_role [OF False] a_def [symmetric] X ..
    have p2: "process_item env2 ex s2 (Tree t)
                = Inr (emit_section env2 (detect_type env1 (root_key t)) (key2name env1 (root_key t)) False
                         (y, d, alt))"
      unfolding process_item_role [OF False2] b_def [symmetric] Y e ps(1) ps(2) ..
    show ?thesis
      unfolding Tree p1 p2 using emit_section_same [OF xy pa] by simp
  qed
qed

lemma detect_loop_same:
  assumes "same_state s1 s2" and "same_parameters env1 env2"
    and "\<forall>t. Tree t \<in> set forest \<longrightarrow> list_all2 (same_outcome (taskcalls t) ex) (rules env1) (rules env2)"
  shows "rel_sum (=) same_state (detect_loop env1 ex s1 forest) (detect_loop env2 ex s2 forest)"
  using assms
proof (induction forest arbitrary: s1 s2)
  case Nil
  then show ?case by simp
next
  case (Cons item rest)
  have "rel_sum (=) same_state (process_item env1 ex s1 item) (process_item env2 ex s2 item)"
    by (rule process_item_same [OF Cons.prems(1) Cons.prems(2)]) (use Cons.prems(3) in simp)
  then consider (err) e where "process_item env1 ex s1 item = Inl e" "process_item env2 ex s2 item = Inl e"
    | (ok) a b where "process_item env1 ex s1 item = Inr a" "process_item env2 ex s2 item = Inr b"
        "same_state a b"
    by (cases "process_item env1 ex s1 item"; cases "process_item env2 ex s2 item") auto
  then show ?case
  proof cases
    case err
    then show ?thesis by simp
  next
    case ok
    from Cons.IH [OF ok(3) Cons.prems(2)] Cons.prems(3) ok(1) ok(2) show ?thesis
      by simp
  qed
qed

lemma same_tables_render:
  assumes "same_tables d1 d2" and "same_parameters env1 env2"
  shows "map (render_separate env1 p r) d1 = map (render_separate env2 p r) d2"
  using assms(1) unfolding same_tables_def
proof (induction d1 d2 rule: list_all2_induct)
  case Nil
  show ?case by simp
next
  case (Cons e1 d1 e2 d2)
  from Cons.hyps(1) have "render_separate env1 p r e1 = render_separate env2 p r e2"
    by (cases e1; cases e2)
       (simp add: render_separate_def Let_def same_parameters_simps(4,5) [OF assms(2)])
  with Cons.IH show ?case by simp
qed

lemma same_state_reports:
  assumes "same_state s1 s2" and "same_parameters env1 env2"
  shows "make_result_txt env1 s1 = make_result_txt env2 s2" and "make_data_report s1 = make_data_report s2"
proof -
  from assms(1) have t: "same_tables (separate_report_d s1) (separate_report_d s2)"
    and f: "report_num s1 = report_num s2" "playbook_count s1 = playbook_count s2"
      "role_count s1 = role_count s2" "heap s1 = heap s2"
      "risk_found_playbooks s1 = risk_found_playbooks s2"
      "tmp_result_txt s1 = tmp_result_txt s2" "result_dict s1 = result_dict s2"
    by (simp_all add: same_state_def)
  show "make_result_txt env1 s1 = make_result_txt env2 s2"
    unfolding make_result_txt_def f same_tables_render [OF t assms(2)] ..
  show "make_data_report s1 = make_data_report s2"
    unfolding make_data_report_def f ..
qed

section \<open>Theorems\<close>

text \<open>
  C9: the package-install concretizer maps the options
  \<open>{"name": "wget", "state": "absent"}\<close> to \<open>{"pkg": "wget", "delete": true}\<close>; it maps
  every value that is not a mapping to the empty mapping; and the result has a
  \<open>delete\<close> entry exactly when the \<open>state\<close> option is the string \<open>absent\<close>, in which case
  the entry is \<open>True\<close>.
\<close>

theorem homebrew_concretizer:
  "homebrew (PyDict [(''name'', PyStr ''wget''), (''state'', PyStr ''absent'')])
     = [(''pkg'', PyStr ''wget''), (''delete'', PyBool True)]
   \<and> ((\<forall>kvs. options \<noteq> PyDict kvs) \<longrightarrow> homebrew options = [])
   \<and> (map_of (homebrew (PyDict kvs)) ''delete'' \<noteq> None
        \<longleftrightarrow> map_of kvs ''state'' = Some (PyStr ''absent''))
   \<and> (map_of (homebrew (PyDict kvs)) ''delete'' \<noteq> None
        \<longrightarrow> map_of (homebrew (PyDict kvs)) ''delete'' = Some (PyBool True))"
proof (intro conjI)
  show "homebrew (PyDict [(''name'', PyStr ''wget''), (''state'', PyStr ''absent'')])
     = [(''pkg'', PyStr ''wget''), (''delete'', PyBool True)]"
    by simp
next
  show "(\<forall>kvs. options \<noteq> PyDict kvs) \<longrightarrow> homebrew options = []"
    by (cases options) simp_all
next
  show "map_of (homebrew (PyDict kvs)) ''delete'' \<noteq> None
        \<longleftrightarrow> map_of kvs ''state'' = Some (PyStr ''absent'')"
    by (auto simp: Let_def split: option.splits)
next
  show "map_of (homebrew (PyDict kvs)) ''delete'' \<noteq> None
        \<longrightarrow> map_of (homebrew (PyDict kvs)) ''delete'' = Some (PyBool True)"
    by (auto simp: Let_def split: option.splits)
qed

theorem homebrew_concretizer_witness:
  "homebrew (PyStr ''wget'') = []
   \<and> map_of (homebrew (PyDict [(''name'', PyStr ''git''), (''state'', PyStr ''present'')])) ''delete'' = None
   \<and> map_of (homebrew (PyDict [(''state'', PyStr ''absent'')])) ''delete'' = Some (PyBool True)"
proof (intro conjI)
  have "\<forall>kvs. PyStr ''wget'' \<noteq> PyDict kvs" by simp
  with homebrew_concretizer [of "PyStr ''wget''" "[]"]
  show "homebrew (PyStr ''wget'') = []" by blast
next
  have "map_of [(''name'', PyStr ''git''), (''state'', PyStr ''present'')] ''state''
          \<noteq> Some (PyStr ''absent'')" by simp
  with homebrew_concretizer [of PyNone "[(''name'', PyStr ''git''), (''state'', PyStr ''present'')]"]
  show "map_of (homebrew (PyDict [(''name'', PyStr ''git''), (''state'', PyStr ''present'')])) ''delete'' = None"
    by blast
next
  have "map_of [(''state'', PyStr ''absent'')] ''state'' = Some (PyStr ''absent'')" by simp
  with homebrew_concretizer [of PyNone "[(''state'', PyStr ''absent'')]"]
  show "map_of (homebrew (PyDict [(''state'', PyStr ''absent'')])) ''delete'' = Some (PyBool True)"
    by blast
qed

text \<open>
  C1, as stated, fails: a tree whose root key has the unknown type \<open>taskfile\<close> is counted
  in \<open>role_count.total\<close>, gets the numbered section \<open>#1 TASKFILE - None\<close>, a table
  row and structured-report records.
\<close>

theorem unknown_root_type_counterexample:
  "detect_type (example_env [always_rule ''tab'' True, always_rule ''inl'' False]) (root_key unknown_tree)
     = ''taskfile''
   \<and> detect (example_env [always_rule ''tab'' True, always_rule ''inl'' False]) [Tree unknown_tree] []
     = Inr (separator_line @ ''Ansible Risk Insight Report'' @ NL @ separator_line
            @ ''Roles'' @ NL @ ''  Total: 1'' @ NL @ ''  Risk Found: 1'' @ NL @ separator_line
            @ ''#1 TASKFILE - None'' @ NL @ ''inl'' @ NL @ ''found'' @ NL @ separator_line
            @ ''tab'' @ NL @ ''taskfile  None  found'' @ NL @ separator_line,
            \<lparr>summary = [(''roles'', \<lparr>summary_total = 1, risk_found = 1\<rparr>)],
             details =
               [\<lparr>detail_rule = ''tab'',
                  detail_results = [\<lparr>rec_type = ''taskfile'', rec_name = None, rec_message = ''found'',
                                     playbooks_use_this_role = None\<rparr>]\<rparr>,
                \<lparr>detail_rule = ''inl'',
                  detail_results = [\<lparr>rec_type = ''taskfile'', rec_name = None, rec_message = ''found'',
                                     playbooks_use_this_role = Some []\<rparr>]\<rparr>]\<rparr>)"
  by code_simp

text \<open>
  C1, amended: only a forest element that is not a \<open>TaskCallsInTree\<close> is skipped
  without effect. Every \<open>TaskCallsInTree\<close> is counted: in \<open>playbook_count.total\<close> when
  its root type is \<open>playbook\<close>, and in \<open>role_count.total\<close> otherwise, whatever the root
  type is.
\<close>

theorem root_type_counting:
  assumes "detect_loop env extra init_state forest = Inr s"
  shows "process_item env extra s0 NotATree = Inr s0
       \<and> total (playbook_count s) = length (filter (is_playbook_item env) forest)
       \<and> total (role_count s) = length (filter (is_other_tree_item env) forest)"
  using detect_loop_counts [OF assms]
  by (simp add: process_item_NotATree init_state_def)

theorem root_type_counting_witness:
  "\<exists>s. detect_loop (example_env []) [] init_state
            [NotATree, Tree unknown_tree, Tree (playbook_tree ''site.yml'')] = Inr s
       \<and> total (playbook_count s) = 1 \<and> total (role_count s) = 1"
proof -
  have "case detect_loop (example_env []) [] init_state
               [NotATree, Tree unknown_tree, Tree (playbook_tree ''site.yml'')] of
          Inl e \<Rightarrow> False | Inr s \<Rightarrow> True"
    by code_simp
  then obtain s where run: "detect_loop (example_env []) [] init_state
               [NotATree, Tree unknown_tree, Tree (playbook_tree ''site.yml'')] = Inr s"
    by (auto split: sum.splits)
  have l1: "length (filter (is_playbook_item (example_env []))
                [NotATree, Tree unknown_tree, Tree (playbook_tree ''site.yml'')]) = 1"
    by code_simp
  have l2: "length (filter (is_other_tree_item (example_env []))
                [NotATree, Tree unknown_tree, Tree (playbook_tree ''site.yml'')]) = 1"
    by code_simp
  from root_type_counting [OF run] l1 l2 run show ?thesis
    by auto
qed

text \<open>
  C2, as stated, fails: two enabled rules, one tabulated and one inline, that match no
  tree leave the \<open>details\<close> list of the structured report empty.
\<close>

theorem unmatched_rule_counterexample:
  "enabled (never_rule ''quiet'' True) \<and> enabled (never_rule ''silent'' False)
   \<and> details_of (detect (example_env [never_rule ''quiet'' True, never_rule ''silent'' False])
                    [Tree role_tree, Tree (playbook_tree ''site.yml'')] []) = Some []"
  by code_simp

text \<open>
  C2, amended: the \<open>details\<close> list has an entry for a rule name exactly when an enabled
  rule of that name matched some tree whose match is recorded, that is any tree for a
  tabulated rule and a non-playbook tree for an inline rule; and no rule name has two
  entries.
\<close>

theorem details_of_matching_rules:
  assumes "detect env forest collection_name = Inr (txt, report)"
  shows "set (map detail_rule (details report))
           = name ` {r \<in> set (rules env). enabled r \<and>
                       (\<exists>t. Tree t \<in> set forest \<and> matched r (taskcalls t) (extra_args collection_name)
                            \<and> (separate_report r \<or> detect_type env (root_key t) \<noteq> ''playbook''))}
       \<and> distinct (map detail_rule (details report))"
proof -
  from assms obtain s where
    run: "detect_loop env (extra_args collection_name) init_state forest = Inr s"
    and rep: "report = make_data_report s"
    by (auto simp: detect_def Let_def split: sum.splits)
  have "distinct (map fst (result_dict s))"
    by (rule detect_loop_distinct [OF run]) (simp add: init_state_def)
  moreover have "fst ` set (result_dict s)
           = name ` {r \<in> set (rules env). enabled r \<and>
                       (\<exists>t. Tree t \<in> set forest \<and> matched r (taskcalls t) (extra_args collection_name)
                            \<and> (separate_report r \<or> detect_type env (root_key t) \<noteq> ''playbook''))}"
    unfolding detect_loop_keys [OF run] recorded_match_iff
    by (auto simp: init_state_def)
  ultimately show ?thesis
    unfolding rep make_data_report_details by simp
qed

theorem details_of_matching_rules_witness:
  "\<exists>txt report.
     detect (example_env [always_rule ''tab'' True, never_rule ''quiet'' True]) [Tree role_tree] []
       = Inr (txt, report)
     \<and> set (map detail_rule (details report)) = {''tab''}"
proof -
  let ?E = "example_env [always_rule ''tab'' True, never_rule ''quiet'' True]"
  have "case detect ?E [Tree role_tree] [] of Inl e \<Rightarrow> False | Inr x \<Rightarrow> True"
    by code_simp
  then obtain narrative report where run: "detect ?E [Tree role_tree] [] = Inr (narrative, report)"
    by (auto split: sum.splits)
  let ?P = "\<lambda>r. enabled r \<and>
                       (\<exists>t. Tree t \<in> set [Tree role_tree] \<and> matched r (taskcalls t) (extra_args [])
                            \<and> (separate_report r \<or> detect_type ?E (root_key t) \<noteq> ''playbook''))"
  have "filter ?P (rules ?E) = [always_rule ''tab'' True]"
    by (simp add: example_env_def always_rule_def never_rule_def matched_def)
  then have "set (filter ?P (rules ?E)) = {always_rule ''tab'' True}"
    by simp
  then have "name ` {r \<in> set (rules ?E). ?P r} = {''tab''}"
    by (simp add: always_rule_def)
  with details_of_matching_rules [OF run] run show ?thesis
    by auto
qed

text \<open>
  C7: at every step of a run the dict \<open>role_to_playbook_mappings\<close>, read through the
  store, only grows: a list that is there keeps its elements as a prefix of the new
  list. An entry changes only while a playbook tree is processed, only for a role named
  by the second segment of the \<open>defined_in\<close> path of one of its tasks whose first segment is
  \<open>roles\<close>, and only by appending the playbook name at the end when it is not yet in the
  list; every such role has the playbook name in its list afterwards; and no list holds
  a name twice.
\<close>

theorem mapping_only_grows:
  assumes reach: "detect_loop env extra init_state pre = Inr s"
    and step: "process_item env extra s item = Inr s'"
  shows "(\<forall>r l. mapping_view s r = Some l \<longrightarrow> (\<exists>l'. mapping_view s' r = Some (l @ l')))
       \<and> (\<forall>r. mapping_view s' r \<noteq> mapping_view s r \<longrightarrow>
              (\<exists>t. item = Tree t \<and> detect_type env (root_key t) = ''playbook''
                 \<and> Some r \<in> role_of_task ` set (taskcalls t)
                 \<and> key2name env (root_key t) \<notin> set (names_of (mapping_view s r))
                 \<and> mapping_view s' r
                     = Some (names_of (mapping_view s r) @ [key2name env (root_key t)])))
       \<and> (\<forall>t r. item = Tree t \<and> detect_type env (root_key t) = ''playbook''
                 \<and> Some r \<in> role_of_task ` set (taskcalls t)
              \<longrightarrow> key2name env (root_key t) \<in> set (names_of (mapping_view s' r)))
       \<and> (\<forall>r l. mapping_view s' r = Some l \<longrightarrow> distinct l)"
proof -
  have wf: "wf_state s" by (rule reachable_wf [OF reach])
  have wf': "wf_state s'" by (rule process_item_wf [OF wf step])
  have d: "\<forall>r l. mapping_view s' r = Some l \<longrightarrow> distinct l"
    using wf_view_distinct [OF wf'] by blast
  show ?thesis
  proof (cases item)
    case NotATree
    with step have "s' = s" by (simp add: process_item_NotATree)
    with d NotATree show ?thesis by simp
  next
    case (Tree t)
    show ?thesis
    proof (cases "detect_type env (root_key t) = ''playbook''")
      case False
      have "mapping_view s' r = mapping_view s r" for r
        by (rule process_item_role_store(2) [OF False wf step [unfolded Tree]])
      with d Tree False show ?thesis by simp
    next
      case True
      have v: "mapping_view s' r
           = (if Some r \<in> role_of_task ` set (taskcalls t)
              then Some (add_once (key2name env (root_key t)) (names_of (mapping_view s r)))
              else mapping_view s r)" for r
        by (rule process_item_playbook_effect(8) [OF True wf step [unfolded Tree]])
      have 1: "\<forall>r l. mapping_view s r = Some l \<longrightarrow> (\<exists>l'. mapping_view s' r = Some (l @ l'))"
        unfolding v by (auto simp: add_once_def names_of_def)
      have 2: "\<forall>r. mapping_view s' r \<noteq> mapping_view s r \<longrightarrow>
              (\<exists>t. item = Tree t \<and> detect_type env (root_key t) = ''playbook''
                 \<and> Some r \<in> role_of_task ` set (taskcalls t)
                 \<and> key2name env (root_key t) \<notin> set (names_of (mapping_view s r))
                 \<and> mapping_view s' r
                     = Some (names_of (mapping_view s r) @ [key2name env (root_key t)]))"
        unfolding v Tree using True
        by (auto simp: add_once_def names_of_def split: option.splits if_splits)
      have 3: "\<forall>t r. item = Tree t \<and> detect_type env (root_key t) = ''playbook''
                 \<and> Some r \<in> role_of_task ` set (taskcalls t)
              \<longrightarrow> key2name env (root_key t) \<in> set (names_of (mapping_view s' r))"
        unfolding v Tree
        by (auto simp: add_once_def names_of_def)
      from 1 2 3 d show ?thesis by blast
    qed
  qed
qed

theorem mapping_only_grows_witness:
  "\<exists>s s'. detect_loop (example_env []) [] init_state [Tree (playbook_tree ''site.yml'')] = Inr s
        \<and> process_item (example_env []) [] s (Tree (playbook_tree ''deploy.yml'')) = Inr s'
        \<and> mapping_view s ''web'' = Some [Some ''site.yml'']
        \<and> (\<exists>l'. mapping_view s' ''web'' = Some ([Some ''site.yml''] @ l'))
        \<and> (\<forall>r l. mapping_view s' r = Some l \<longrightarrow> distinct l)"
proof -
  let ?E = "example_env [] :: unit env"
  have "case detect_loop ?E [] init_state [Tree (playbook_tree ''site.yml'')] of
          Inl e \<Rightarrow> False
        | Inr s \<Rightarrow> mapping_view s ''web'' = Some [Some ''site.yml'']
                 \<and> (case process_item ?E [] s (Tree (playbook_tree ''deploy.yml'')) of
                       Inl e \<Rightarrow> False | Inr s' \<Rightarrow> True)"
    by code_simp
  then obtain s s' where
    run: "detect_loop ?E [] init_state [Tree (playbook_tree ''site.yml'')] = Inr s"
    and v: "mapping_view s ''web'' = Some [Some ''site.yml'']"
    and step: "process_item ?E [] s (Tree (playbook_tree ''deploy.yml'')) = Inr s'"
    by (auto split: sum.splits)
  from mapping_only_grows [OF run step]
  have g: "\<forall>r l. mapping_view s r = Some l \<longrightarrow> (\<exists>l'. mapping_view s' r = Some (l @ l'))"
    and d: "\<forall>r l. mapping_view s' r = Some l \<longrightarrow> distinct l"
    by blast+
  from g v have "\<exists>l'. mapping_view s' ''web'' = Some ([Some ''site.yml''] @ l')" by blast
  with run step v d show ?thesis by blast
qed

text \<open>
  C4: in the narrative report returned by \<open>detect\<close>, between the head with the summary
  counts and the sections of the tabulated rules, every forest element has one slot, in
  processing order. The slot of a tree whose root type is not \<open>playbook\<close> and on which
  \<open>N \<ge> 1\<close> enabled inline rules match is exactly one numbered section, however large \<open>N\<close>
  is: the header \<open>#n TYPE - name\<close>, where \<open>n\<close> is one more than the number of elements
  with an incident before it, the optional \<open>used_in\<close> line, the messages of the matching
  inline rules and a separator. The slot of every other element, in particular of a
  role tree without inline match, is empty. \<open>role_count.risk\<close>, also as \<open>risk_found\<close> of
  the \<open>roles\<close> summary entry, is the number of elements with an incident: each adds
  exactly one.
\<close>

theorem single_incident_per_role_tree:
  assumes "detect env forest collection_name = Inr (narrative, report)"
  shows "\<exists>s. detect_loop env (extra_args collection_name) init_state forest = Inr s
       \<and> narrative = report_head s
                      @ concat (incident_sections env (extra_args collection_name) 1 init_state forest)
                      @ report_tables env s
       \<and> length (incident_sections env (extra_args collection_name) 1 init_state forest) = length forest
       \<and> (\<forall>pre t post. forest = pre @ Tree t # post \<longrightarrow>
            (\<exists>s_pre. detect_loop env (extra_args collection_name) init_state pre = Inr s_pre
               \<and> incident_sections env (extra_args collection_name) 1 init_state forest ! length pre
                   = (if detect_type env (root_key t) \<noteq> ''playbook''
                         \<and> length (inline_matches env (extra_args collection_name) t) \<ge> 1
                      then section_txt env
                             (1 + length (filter (has_incident env (extra_args collection_name)) pre))
                             (detect_type env (root_key t)) (key2name env (root_key t))
                             (used_in_of s_pre (key2name env (root_key t)))
                             (inline_body env (extra_args collection_name) t)
                      else [])))
       \<and> risk (role_count s) = length (filter (has_incident env (extra_args collection_name)) forest)
       \<and> (\<forall>e. map_of (summary report) ''roles'' = Some e
              \<longrightarrow> risk_found e = length (filter (has_incident env (extra_args collection_name)) forest))"
proof -
  let ?ex = "extra_args collection_name"
  from assms obtain s where run: "detect_loop env ?ex init_state forest = Inr s"
    and n: "narrative = make_result_txt env s" and rep: "report = make_data_report s"
    by (auto simp: detect_def Let_def split: sum.splits)
  have i0: "report_num (init_state :: 'a state) = 1" "tmp_result_txt (init_state :: 'a state) = []"
    "risk (role_count (init_state :: 'a state)) = 0"
    by (simp_all add: init_state_def)
  from detect_loop_incidents [OF wf_init_state run, unfolded i0]
  have t: "tmp_result_txt s = concat (incident_sections env ?ex 1 init_state forest)"
    and k: "risk (role_count s) = length (filter (has_incident env ?ex) forest)"
    and l: "length (incident_sections env ?ex 1 init_state forest) = length forest"
    by simp_all
  have nar: "narrative = report_head s @ concat (incident_sections env ?ex 1 init_state forest)
                         @ report_tables env s"
    unfolding n make_result_txt_parts t ..
  have slot: "\<forall>pre t post. forest = pre @ Tree t # post \<longrightarrow>
            (\<exists>s_pre. detect_loop env ?ex init_state pre = Inr s_pre
               \<and> incident_sections env ?ex 1 init_state forest ! length pre
                   = (if detect_type env (root_key t) \<noteq> ''playbook''
                         \<and> length (inline_matches env ?ex t) \<ge> 1
                      then section_txt env (1 + length (filter (has_incident env ?ex) pre))
                             (detect_type env (root_key t)) (key2name env (root_key t))
                             (used_in_of s_pre (key2name env (root_key t)))
                             (inline_body env ?ex t)
                      else []))"
  proof (intro allI impI)
    fix pre t post
    assume f: "forest = pre @ Tree t # post"
    from incident_sections_nth [OF wf_init_state run [unfolded f], unfolded i0]
    obtain s_pre where a: "detect_loop env ?ex init_state pre = Inr s_pre"
      and b: "incident_sections env ?ex 1 init_state (pre @ Tree t # post) ! length pre
               = item_section env ?ex (1 + length (filter (has_incident env ?ex) pre)) s_pre (Tree t)"
      by blast
    have c: "item_section env ?ex k s_pre (Tree t)
               = (if detect_type env (root_key t) \<noteq> ''playbook''
                         \<and> length (inline_matches env ?ex t) \<ge> 1
                      then section_txt env k
                             (detect_type env (root_key t)) (key2name env (root_key t))
                             (used_in_of s_pre (key2name env (root_key t)))
                             (inline_body env ?ex t)
                      else [])" for k
      unfolding item_section_def by simp
    from a b [unfolded c]
    show "\<exists>s_pre. detect_loop env ?ex init_state pre = Inr s_pre
               \<and> incident_sections env ?ex 1 init_state forest ! length pre
                   = (if detect_type env (root_key t) \<noteq> ''playbook''
                         \<and> length (inline_matches env ?ex t) \<ge> 1
                      then section_txt env (1 + length (filter (has_incident env ?ex) pre))
                             (detect_type env (root_key t)) (key2name env (root_key t))
                             (used_in_of s_pre (key2name env (root_key t)))
                             (inline_body env ?ex t)
                      else [])"
      unfolding f by blast
  qed
  have sr: "\<forall>e. map_of (summary report) ''roles'' = Some e
              \<longrightarrow> risk_found e = length (filter (has_incident env ?ex) forest)"
    unfolding rep using summary_roles [of s] k by simp
  from run nar l slot k sr show ?thesis by blast
qed


theorem single_incident_per_role_tree_witness:
  "\<exists>narrative report s.
     detect (example_env [always_rule ''pin'' False, always_rule ''key'' False])
       [Tree (playbook_tree ''site.yml''), Tree role_tree] [] = Inr (narrative, report)
     \<and> detect_loop (example_env [always_rule ''pin'' False, always_rule ''key'' False]) (extra_args [])
         init_state [Tree (playbook_tree ''site.yml''), Tree role_tree] = Inr s
     \<and> narrative
         = report_head s
           @ (''#1 ROLE - web'' @ NL @ ''(used_in: ['' @ quoted ''site.yml'' @ ''])'' @ NL
              @ ''pin'' @ NL @ ''found'' @ NL @ ''key'' @ NL @ ''found'' @ NL @ separator_line)
           @ report_tables (example_env [always_rule ''pin'' False, always_rule ''key'' False]) s
     \<and> risk (role_count s) = 1"
proof -
  let ?E = "example_env [always_rule ''pin'' False, always_rule ''key'' False]"
  let ?F = "[Tree (playbook_tree ''site.yml''), Tree role_tree]"
  have "case detect ?E ?F [] of Inl e \<Rightarrow> False | Inr x \<Rightarrow> True"
    by code_simp
  then obtain narrative report where d: "detect ?E ?F [] = Inr (narrative, report)"
    by (auto split: sum.splits)
  have c: "concat (incident_sections ?E (extra_args []) 1 init_state ?F)
             = ''#1 ROLE - web'' @ NL @ ''(used_in: ['' @ quoted ''site.yml'' @ ''])'' @ NL
               @ ''pin'' @ NL @ ''found'' @ NL @ ''key'' @ NL @ ''found'' @ NL @ separator_line"
    by code_simp
  have k: "length (filter (has_incident ?E (extra_args [])) ?F) = 1"
    by code_simp
  from single_incident_per_role_tree [OF d]
  obtain s where run: "detect_loop ?E (extra_args []) init_state ?F = Inr s"
    and nar: "narrative = report_head s @ concat (incident_sections ?E (extra_args []) 1 init_state ?F)
                          @ report_tables ?E s"
    and r: "risk (role_count s) = length (filter (has_incident ?E (extra_args [])) ?F)"
    by blast
  from d run nar [unfolded c] r [unfolded k] show ?thesis by blast
qed

text \<open>
  C5: when a tree of any root type is processed, the table kept under a rule name gains
  one row \<open>(root type, root name, message)\<close> for every enabled tabulated rule of that
  name whose check matched, in rule order, and no other row. The tabulated rules have no
  influence on \<open>playbook_count.risk\<close>, \<open>role_count.risk\<close>, the incident counter and
  \<open>risk_found_playbooks\<close>: the same step with the tabulated rules removed from the rule
  set yields the same four values.
\<close>

theorem tabulated_independence:
  assumes "process_item env extra s (Tree t) = Inr s'"
  shows "rows_of (separate_report_d s') n
           = rows_of (separate_report_d s) n
             @ map (tab_row (taskcalls t) extra (detect_type env (root_key t)) (key2name env (root_key t)))
                   (filter (\<lambda>r. tabulated_match (taskcalls t) extra r \<and> name r = n) (rules env))
       \<and> (\<exists>s''. process_item (inline_only env) extra s (Tree t) = Inr s''
              \<and> risk (playbook_count s'') = risk (playbook_count s')
              \<and> risk (role_count s'') = risk (role_count s')
              \<and> report_num s'' = report_num s'
              \<and> risk_found_playbooks s'' = risk_found_playbooks s')"
proof
  show "rows_of (separate_report_d s') n
           = rows_of (separate_report_d s) n
             @ map (tab_row (taskcalls t) extra (detect_type env (root_key t)) (key2name env (root_key t)))
                   (filter (\<lambda>r. tabulated_match (taskcalls t) extra r \<and> name r = n) (rules env))"
    by (rule process_item_rows [OF assms])
next
  show "\<exists>s''. process_item (inline_only env) extra s (Tree t) = Inr s''
              \<and> risk (playbook_count s'') = risk (playbook_count s')
              \<and> risk (role_count s'') = risk (role_count s')
              \<and> report_num s'' = report_num s'
              \<and> risk_found_playbooks s'' = risk_found_playbooks s'"
  proof (cases "detect_type env (root_key t) = ''playbook''")
    case True
    then have True': "detect_type (inline_only env) (root_key t) = ''playbook''"
      by (simp add: inline_only_simps)
    from assms obtain m h where
      reg: "register_roles (key2name env (root_key t)) (taskcalls t) (role_to_playbook_mappings s, heap s)
              = Inr (m, h)"
      unfolding process_item_playbook [OF True] by (auto split: sum.splits)
    define s1 where "s1 = s\<lparr>playbook_count := (playbook_count s)\<lparr>total := total (playbook_count s) + 1\<rparr>,
                    role_to_playbook_mappings := m, heap := h\<rparr>"
    have s': "s' = fst (loop_result env extra t s1)"
      using assms unfolding process_item_playbook [OF True] reg s1_def by simp
    have s'': "process_item (inline_only env) extra s (Tree t)
                 = Inr (fst (loop_result (inline_only env) extra t s1))"
      unfolding process_item_playbook [OF True'] inline_only_simps reg s1_def by simp
    show ?thesis
      unfolding s' s'' by (simp add: loop_result_frame)
  next
    case False
    then have False': "detect_type (inline_only env) (root_key t) \<noteq> ''playbook''"
      by (simp add: inline_only_simps)
    from process_item_role_effect [OF False, of extra s] assms
    have a: "report_num s' = report_num s + (if inline_matches env extra t \<noteq> [] then 1 else 0)"
      "risk (role_count s') = risk (role_count s) + (if inline_matches env extra t \<noteq> [] then 1 else 0)"
      "playbook_count s' = playbook_count s"
      "risk_found_playbooks s' = risk_found_playbooks s
          \<union> (if inline_matches env extra t \<noteq> [] then set (used_in_of s (key2name env (root_key t))) else {})"
      by auto
    from process_item_role_effect [OF False', of extra s, unfolded inline_only_simps]
    obtain s'' where p: "process_item (inline_only env) extra s (Tree t) = Inr s''"
      and b: "report_num s'' = report_num s + (if inline_matches env extra t \<noteq> [] then 1 else 0)"
      "risk (role_count s'') = risk (role_count s) + (if inline_matches env extra t \<noteq> [] then 1 else 0)"
      "playbook_count s'' = playbook_count s"
      "risk_found_playbooks s'' = risk_found_playbooks s
          \<union> (if inline_matches env extra t \<noteq> [] then set (used_in_of s (key2name env (root_key t))) else {})"
      by auto
    show ?thesis
      using p a b by simp
  qed
qed


theorem tabulated_independence_witness:
  "\<exists>s'. process_item
           (example_env [always_rule ''tab'' True, never_rule ''quiet'' True, always_rule ''inl'' False])
           [] init_state (Tree role_tree) = Inr s'
      \<and> rows_of (separate_report_d s') ''tab'' = [(''role'', Some ''web'', ''found'')]
      \<and> rows_of (separate_report_d s') ''quiet'' = []
      \<and> (\<exists>s''. process_item
                  (inline_only
                     (example_env [always_rule ''tab'' True, never_rule ''quiet'' True, always_rule ''inl'' False]))
                  [] init_state (Tree role_tree) = Inr s''
             \<and> risk (role_count s'') = risk (role_count s')
             \<and> report_num s'' = report_num s')"
proof -
  let ?E = "example_env [always_rule ''tab'' True, never_rule ''quiet'' True, always_rule ''inl'' False]"
  have "case process_item ?E [] init_state (Tree role_tree) of Inl e \<Rightarrow> False | Inr s' \<Rightarrow> True"
    by code_simp
  then obtain s' where p: "process_item ?E [] init_state (Tree role_tree) = Inr s'"
    by (auto split: sum.splits)
  have r1: "rows_of (separate_report_d (init_state :: unit state)) ''tab''
             @ map (tab_row (taskcalls role_tree) [] (detect_type ?E (root_key role_tree))
                      (key2name ?E (root_key role_tree)))
                   (filter (\<lambda>r. tabulated_match (taskcalls role_tree) [] r \<and> name r = ''tab'') (rules ?E))
            = [(''role'', Some ''web'', ''found'')]"
    by code_simp
  have r2: "rows_of (separate_report_d (init_state :: unit state)) ''quiet''
             @ map (tab_row (taskcalls role_tree) [] (detect_type ?E (root_key role_tree))
                      (key2name ?E (root_key role_tree)))
                   (filter (\<lambda>r. tabulated_match (taskcalls role_tree) [] r \<and> name r = ''quiet'') (rules ?E))
            = []"
    by code_simp
  from tabulated_independence [OF p, of "''tab''"]
  have a: "rows_of (separate_report_d s') ''tab'' = [(''role'', Some ''web'', ''found'')]"
    and c: "\<exists>s''. process_item (inline_only ?E) [] init_state (Tree role_tree) = Inr s''
             \<and> risk (role_count s'') = risk (role_count s')
             \<and> report_num s'' = report_num s'"
    unfolding r1 by blast+
  from tabulated_independence [OF p, of "''quiet''"]
  have b: "rows_of (separate_report_d s') ''quiet'' = []"
    unfolding r2 by blast
  from p a b c show ?thesis by blast
qed

text \<open>
  C10: in every structured report returned by \<open>detect\<close>, a \<open>playbooks\<close> summary entry has
  \<open>risk_found = 0\<close>, because \<open>playbook_count.risk\<close> is never incremented. The narrative
  report prints the size of \<open>risk_found_playbooks\<close> instead, which can differ: in the run
  of one playbook using the role \<open>web\<close> followed by the role tree \<open>web\<close> with a matching
  inline rule, the narrative says \<open>Risk Found: 1\<close> for playbooks while the structured
  report says \<open>0\<close>.
\<close>

theorem playbook_risk_always_zero:
  "(\<forall>txt report e. detect env forest collection_name = Inr (txt, report)
        \<longrightarrow> map_of (summary report) ''playbooks'' = Some e \<longrightarrow> risk_found e = 0)
   \<and> detect (example_env [always_rule ''inl'' False]) [Tree (playbook_tree ''site.yml''), Tree role_tree] []
       = Inr (separator_line @ ''Ansible Risk Insight Report'' @ NL @ separator_line
              @ ''Playbooks'' @ NL @ ''  Total: 1'' @ NL @ ''  Risk Found: 1'' @ NL
              @ ''Roles'' @ NL @ ''  Total: 1'' @ NL @ ''  Risk Found: 1'' @ NL
              @ separator_line
              @ ''#1 ROLE - web'' @ NL @ ''(used_in: ['' @ quoted ''site.yml'' @ ''])'' @ NL
              @ ''inl'' @ NL @ ''found'' @ NL @ separator_line,
              \<lparr>summary = [(''playbooks'', \<lparr>summary_total = 1, risk_found = 0\<rparr>),
                          (''roles'', \<lparr>summary_total = 1, risk_found = 1\<rparr>)],
               details =
                 [\<lparr>detail_rule = ''inl'',
                    detail_results =
                      [\<lparr>rec_type = ''role'', rec_name = Some ''web'', rec_message = ''found'',
                         playbooks_use_this_role = Some [Some ''site.yml'']\<rparr>]\<rparr>]\<rparr>)"
proof
  show "\<forall>txt report e. detect env forest collection_name = Inr (txt, report)
        \<longrightarrow> map_of (summary report) ''playbooks'' = Some e \<longrightarrow> risk_found e = 0"
  proof (intro allI impI)
    fix narrative report e
    assume d: "detect env forest collection_name = Inr (narrative, report)"
      and m: "map_of (summary report) ''playbooks'' = Some e"
    from d obtain s where
      run: "detect_loop env (extra_args collection_name) init_state forest = Inr s"
      and rep: "report = make_data_report s"
      by (auto simp: detect_def Let_def split: sum.splits)
    from detect_loop_counts [OF run] have "risk (playbook_count s) = 0"
      by (simp add: init_state_def)
    with summary_playbooks [OF m [unfolded rep]] show "risk_found e = 0" by simp
  qed
next
  show "detect (example_env [always_rule ''inl'' False]) [Tree (playbook_tree ''site.yml''), Tree role_tree] []
       = Inr (separator_line @ ''Ansible Risk Insight Report'' @ NL @ separator_line
              @ ''Playbooks'' @ NL @ ''  Total: 1'' @ NL @ ''  Risk Found: 1'' @ NL
              @ ''Roles'' @ NL @ ''  Total: 1'' @ NL @ ''  Risk Found: 1'' @ NL
              @ separator_line
              @ ''#1 ROLE - web'' @ NL @ ''(used_in: ['' @ quoted ''site.yml'' @ ''])'' @ NL
              @ ''inl'' @ NL @ ''found'' @ NL @ separator_line,
              \<lparr>summary = [(''playbooks'', \<lparr>summary_total = 1, risk_found = 0\<rparr>),
                          (''roles'', \<lparr>summary_total = 1, risk_found = 1\<rparr>)],
               details =
                 [\<lparr>detail_rule = ''inl'',
                    detail_results =
                      [\<lparr>rec_type = ''role'', rec_name = Some ''web'', rec_message = ''found'',
                         playbooks_use_this_role = Some [Some ''site.yml'']\<rparr>]\<rparr>]\<rparr>)"
    by code_simp
qed

theorem playbook_risk_always_zero_witness:
  "\<exists>txt report e.
     detect (example_env [always_rule ''inl'' False, always_rule ''tab'' True])
       [Tree (playbook_tree ''site.yml''), Tree role_tree, Tree (playbook_tree ''deploy.yml'')] []
       = Inr (txt, report)
     \<and> map_of (summary report) ''playbooks'' = Some e \<and> summary_total e = 2 \<and> risk_found e = 0"
proof -
  let ?E = "example_env [always_rule ''inl'' False, always_rule ''tab'' True]"
  let ?F = "[Tree (playbook_tree ''site.yml''), Tree role_tree, Tree (playbook_tree ''deploy.yml'')]"
  have "case detect ?E ?F [] of
          Inl err \<Rightarrow> False
        | Inr x \<Rightarrow> (case map_of (summary (snd x)) ''playbooks'' of
                     None \<Rightarrow> False | Some e \<Rightarrow> summary_total e = 2)"
    by code_simp
  then obtain narrative report e where d: "detect ?E ?F [] = Inr (narrative, report)"
    and m: "map_of (summary report) ''playbooks'' = Some e" and t: "summary_total e = 2"
    by (auto split: sum.splits option.splits)
  from playbook_risk_always_zero [of ?E ?F "[]"] d m have "risk_found e = 0"
    by blast
  with d m t show ?thesis by blast
qed




text \<open>
  C3, evaluated on the forest playbook \<open>site.yml\<close>, role \<open>web\<close>, playbook \<open>deploy.yml\<close>,
  where both playbooks have a task under \<open>roles/web\<close> and an inline rule matches the
  role tree. When the role tree is processed only \<open>site.yml\<close> is linked to \<open>web\<close>, and
  the narrative section says so; the record of the structured report holds the list
  object of the dict, which \<open>deploy.yml\<close> is appended to afterwards, so the returned
  report lists both playbooks.
\<close>

theorem used_in_alias_evaluation:
  "detect (example_env [always_rule ''inl'' False])
     [Tree (playbook_tree ''site.yml''), Tree role_tree, Tree (playbook_tree ''deploy.yml'')] []
   = Inr (separator_line @ ''Ansible Risk Insight Report'' @ NL @ separator_line
          @ ''Playbooks'' @ NL @ ''  Total: 2'' @ NL @ ''  Risk Found: 1'' @ NL
          @ ''Roles'' @ NL @ ''  Total: 1'' @ NL @ ''  Risk Found: 1'' @ NL
          @ separator_line
          @ ''#1 ROLE - web'' @ NL @ ''(used_in: ['' @ quoted ''site.yml'' @ ''])'' @ NL
          @ ''inl'' @ NL @ ''found'' @ NL @ separator_line,
          \<lparr>summary = [(''playbooks'', \<lparr>summary_total = 2, risk_found = 0\<rparr>),
                      (''roles'', \<lparr>summary_total = 1, risk_found = 1\<rparr>)],
           details =
             [\<lparr>detail_rule = ''inl'',
                detail_results =
                  [\<lparr>rec_type = ''role'', rec_name = Some ''web'', rec_message = ''found'',
                     playbooks_use_this_role = Some [Some ''site.yml'', Some ''deploy.yml'']\<rparr>]\<rparr>]\<rparr>)"
  by code_simp

text \<open>
  C6: two runs of \<open>detect\<close> on the same forest and collection name return the same
  narrative text and the same structured report, or fail with the same error, whenever
  the rule objects of the two runs have, pairwise, the same name and flags and checks
  that return the same \<open>matched\<close> and the same \<open>message\<close> on every tree of the forest, as
  the pure and deterministic checks of a fixed rule set do. Nothing else of a rule
  object enters the reports: not the middle component of the result of a check, and not
  what a check returns on other task lists.
\<close>

theorem detect_deterministic:
  assumes "same_parameters env1 env2"
    and "\<forall>t. Tree t \<in> set forest \<longrightarrow>
           list_all2 (same_outcome (taskcalls t) (extra_args collection_name)) (rules env1) (rules env2)"
  shows "detect env1 forest collection_name = detect env2 forest collection_name"
proof -
  have i: "same_state (init_state :: 'a state) (init_state :: 'b state)"
    by (simp add: same_state_def init_state_def same_tables_def)
  let ?ex = "extra_args collection_name"
  from detect_loop_same [OF i assms]
  consider (err) e where "detect_loop env1 ?ex init_state forest = Inl e"
      "detect_loop env2 ?ex init_state forest = Inl e"
    | (ok) a b where "detect_loop env1 ?ex init_state forest = Inr a"
        "detect_loop env2 ?ex init_state forest = Inr b" "same_state a b"
    by (cases "detect_loop env1 ?ex init_state forest"; cases "detect_loop env2 ?ex init_state forest") auto
  then show ?thesis
  proof cases
    case err
    then show ?thesis by (simp add: detect_def)
  next
    case ok
    from same_state_reports [OF ok(3) assms(1)] ok(1) ok(2) show ?thesis
      by (simp add: detect_def)
  qed
qed

theorem detect_deterministic_witness:
  "detect (example_env [always_rule ''tab'' True, always_rule ''inl'' False])
     [Tree (playbook_tree ''site.yml''), Tree role_tree] ''community.general''
   = detect (second_env [counting_rule ''tab'' True, counting_rule ''inl'' False])
       [Tree (playbook_tree ''site.yml''), Tree role_tree] ''community.general''"
proof (rule detect_deterministic)
  show "same_parameters (example_env [always_rule ''tab'' True, always_rule ''inl'' False])
          (second_env [counting_rule ''tab'' True, counting_rule ''inl'' False])"
    by (simp add: same_parameters_def example_env_def second_env_def)
next
  show "\<forall>t. Tree t \<in> set [Tree (playbook_tree ''site.yml''), Tree role_tree] \<longrightarrow>
          list_all2 (same_outcome (taskcalls t) (extra_args ''community.general''))
            (rules (example_env [always_rule ''tab'' True, always_rule ''inl'' False]))
            (rules (second_env [counting_rule ''tab'' True, counting_rule ''inl'' False]))"
    by (auto simp: example_env_def second_env_def always_rule_def counting_rule_def same_outcome_def
                   matched_def message_of_def playbook_tree_def role_tree_def)
qed

end
